theory Spec2Isabelle
  imports Main "HOL-Library.Sublist"
begin

section \<open>Python strings\<close>

text \<open>
  A Python \<open>str\<close> is a sequence of code points. The model takes a \<^typ>\<open>string\<close> as the
  sequence of code points below 256 (Latin-1), one \<^typ>\<open>char\<close> per code point, and gives
  \<open>str.isspace\<close>, \<open>str.lower\<close>, \<open>str.strip\<close>, \<open>str.rstrip\<close>, \<open>str.startswith\<close>,
  \<open>in\<close> and \<open>re.sub(r'\s+', ' ', _)\<close> the meaning CPython gives them on that range.
  Both \<open>str.strip()\<close> and the regular expression class \<open>\s\<close> of a \<open>str\<close> pattern use
  the same whitespace test: code points 9-13, 28-32, 0x85 and 0xA0.
\<close>

definition isspace :: "char \<Rightarrow> bool" where
  "isspace c = (let n = (of_char c :: nat) in
     (9 \<le> n \<and> n \<le> 13) \<or> (28 \<le> n \<and> n \<le> 32) \<or> n = 133 \<or> n = 160)"

definition lower_char :: "char \<Rightarrow> char" where
  "lower_char c = (let n = (of_char c :: nat) in
     if (65 \<le> n \<and> n \<le> 90) \<or> (192 \<le> n \<and> n \<le> 222 \<and> n \<noteq> 215)
     then char_of (n + 32) else c)"

definition lower :: "string \<Rightarrow> string" where
  "lower s = map lower_char s"

definition lstrip :: "string \<Rightarrow> string" where
  "lstrip s = dropWhile isspace s"

definition rstrip :: "string \<Rightarrow> string" where
  "rstrip s = rev (dropWhile isspace (rev s))"

definition strip :: "string \<Rightarrow> string" where
  "strip s = rstrip (lstrip s)"

text \<open>\<open>s.rstrip(chars)\<close>: every trailing character that is one of \<open>chars\<close> is removed.\<close>

definition rstrip_chars :: "string \<Rightarrow> string \<Rightarrow> string" where
  "rstrip_chars chars s = rev (dropWhile (\<lambda>c. c \<in> set chars) (rev s))"

definition startswith :: "string \<Rightarrow> string \<Rightarrow> bool" where
  "startswith s p = prefix p s"

text \<open>\<open>sub in s\<close> for strings: \<open>sub\<close> occurs in \<open>s\<close> as a contiguous substring.\<close>

fun py_in :: "string \<Rightarrow> string \<Rightarrow> bool" where
  "py_in sub [] = (sub = [])"
| "py_in sub (c # cs) = (prefix sub (c # cs) \<or> py_in sub cs)"

text \<open>\<open>re.sub(r'\s+', ' ', s)\<close>: each maximal run of whitespace becomes one space.\<close>

function sub_ws :: "string \<Rightarrow> string" where
  "sub_ws [] = []"
| "sub_ws (c # cs) =
     (if isspace c then CHR '' '' # sub_ws (dropWhile isspace cs) else c # sub_ws cs)"
  by pat_completeness auto
termination
  by (relation "measure length") (auto simp: le_imp_less_Suc length_dropWhile_le)

text \<open>
  \<open>SQLCoach.normalize_sql\<close>:
  \<^verbatim>\<open>return re.sub(r'\s+', ' ', sql.lower().strip().rstrip(';'))\<close>
\<close>

definition normalize_sql :: "string \<Rightarrow> string" where
  "normalize_sql sql = sub_ws (rstrip_chars '';'' (strip (lower sql)))"

text \<open>Truthiness of a value that is \<open>None\<close> or a string, as Python's \<open>if x:\<close> tests it.\<close>

definition truthy :: "string option \<Rightarrow> bool" where
  "truthy x = (case x of None \<Rightarrow> False | Some s \<Rightarrow> s \<noteq> [])"

datatype py_error = IndexError

text \<open>\<open>xs[i]\<close> for a non-negative index: out of range raises \<open>IndexError\<close>.\<close>

definition py_index :: "'a list \<Rightarrow> nat \<Rightarrow> py_error + 'a" where
  "py_index xs i = (if i < length xs then Inr (xs ! i) else Inl IndexError)"

text \<open>\<open>xs.index(x)\<close>: the first position of \<open>x\<close>, \<open>None\<close> standing for \<open>ValueError\<close>.\<close>

fun index_of :: "'a list \<Rightarrow> 'a \<Rightarrow> nat option" where
  "index_of [] x = None"
| "index_of (y # ys) x =
     (if y = x then Some 0 else map_option Suc (index_of ys x))"

section \<open>The curriculum\<close>

text \<open>
  A lesson and a phase are Python dictionaries with a fixed set of keys; they become records.
  The \<open>concept\<close> text of a lesson is display text only (it is read by no operation other
  than the lesson display and holds arrows outside Latin-1), so the record leaves it out.
  \<open>follow_up\<close> is read with \<open>lesson.get('follow_up', ...)\<close> and is therefore optional.
\<close>

record lesson =
  lesson_id :: string
  title :: string
  challenge :: string
  hints :: "string list"
  solution_steps :: "string list"
  answer :: string
  follow_up :: "string option"

record phase =
  phase_id :: int
  phase_title :: string
  description :: string
  lessons :: "lesson list"

definition lesson_1_1 :: lesson where
  "lesson_1_1 =
     \<lparr>lesson_id = ''1.1'',
      title = ''SELECT & FROM - Your Starting Point'',
      challenge = ''Show me all campaign names and their bidding strategies from the campaigns table.'',
      hints = [''You need SELECT and FROM - two keywords'',
               ''The columns you want are: campaign_name, bidding_strategy'',
               ''The table is: campaigns''],
      solution_steps = [''SELECT'',
                        ''SELECT campaign_name, bidding_strategy'',
                        ''SELECT campaign_name, bidding_strategy FROM campaigns;''],
      answer = ''SELECT campaign_name, bidding_strategy FROM campaigns;'',
      follow_up = Some ''Try: Show only SEARCH type campaigns (you'll need WHERE)''\<rparr>"

definition lesson_1_2 :: lesson where
  "lesson_1_2 =
     \<lparr>lesson_id = ''1.2'',
      title = ''WHERE - Filtering Rows'',
      challenge = ''Find all ad performance rows where device is 'MOBILE' and impressions are greater than 20000.'',
      hints = [''Start with SELECT * FROM ad_performance_daily'',
               ''Add WHERE with two conditions'',
               ''Use AND to combine: device = 'MOBILE' AND impressions > 20000'',
               (''String values need quotes: 'MOBILE'' @ [CHR 0x27])],
      solution_steps = [''SELECT * FROM ad_performance_daily'',
                        (''SELECT * FROM ad_performance_daily WHERE device = 'MOBILE'' @ [CHR 0x27]),
                        ''SELECT * FROM ad_performance_daily WHERE device = 'MOBILE' AND impressions > 20000;''],
      answer = ''SELECT * FROM ad_performance_daily WHERE device = 'MOBILE' AND impressions > 20000;'',
      follow_up = Some ''Try: Find search terms with clicks but ZERO conversions (wasted spend)''\<rparr>"

definition lesson_1_3 :: lesson where
  "lesson_1_3 =
     \<lparr>lesson_id = ''1.3'',
      title = ''ORDER BY & LIMIT'',
      challenge = ''Show the top 5 ad performance rows by clicks (highest first). Include date, campaign_id, clicks, and cost_micros.'',
      hints = [''SELECT specific columns, not *'',
               ''ORDER BY clicks DESC for highest first'',
               ''Add LIMIT 5 at the end''],
      solution_steps = [''SELECT date, campaign_id, clicks, cost_micros'',
                        ''SELECT date, campaign_id, clicks, cost_micros FROM ad_performance_daily'',
                        ''SELECT date, campaign_id, clicks, cost_micros FROM ad_performance_daily ORDER BY clicks DESC'',
                        ''SELECT date, campaign_id, clicks, cost_micros FROM ad_performance_daily ORDER BY clicks DESC LIMIT 5;''],
      answer = ''SELECT date, campaign_id, clicks, cost_micros FROM ad_performance_daily ORDER BY clicks DESC LIMIT 5;'',
      follow_up = Some ''Try converting cost_micros to dollars (divide by 1000000) and alias it''\<rparr>"

definition lesson_1_4 :: lesson where
  "lesson_1_4 =
     \<lparr>lesson_id = ''1.4'',
      title = ''Execution Order - The Key Insight'',
      challenge = ''Calculate cost in USD (cost_micros / 1000000) as cost_usd, then ORDER BY cost_usd descending. Limit to 5 rows.'',
      hints = [''Create an alias: cost_micros / 1000000.0 AS cost_usd'',
               ''You can use the alias in ORDER BY'',
               ''Include date and campaign_id for context''],
      solution_steps = [''SELECT date, campaign_id, cost_micros / 1000000.0 AS cost_usd'',
                        ''SELECT date, campaign_id, cost_micros / 1000000.0 AS cost_usd FROM ad_performance_daily'',
                        ''SELECT date, campaign_id, cost_micros / 1000000.0 AS cost_usd FROM ad_performance_daily ORDER BY cost_usd DESC'',
                        ''SELECT date, campaign_id, cost_micros / 1000000.0 AS cost_usd FROM ad_performance_daily ORDER BY cost_usd DESC LIMIT 5;''],
      answer = ''SELECT date, campaign_id, cost_micros / 1000000.0 AS cost_usd FROM ad_performance_daily ORDER BY cost_usd DESC LIMIT 5;'',
      follow_up = Some ''Notice you CAN use cost_usd in ORDER BY. Try using it in WHERE and see why it fails.''\<rparr>"

definition lesson_2_1 :: lesson where
  "lesson_2_1 =
     \<lparr>lesson_id = ''2.1'',
      title = ''Aggregate Functions'',
      challenge = ''Calculate the total impressions, total clicks, and total cost in USD across ALL rows in ad_performance_daily.'',
      hints = [''Use SUM() for each metric'',
               ''No GROUP BY needed - you want one total across everything'',
               ''Divide cost_micros by 1000000.0 for USD'',
               ''Use AS to create readable column names''],
      solution_steps = [''SELECT SUM(impressions)'',
                        ''SELECT SUM(impressions) AS total_impressions, SUM(clicks) AS total_clicks'',
                        ''SELECT SUM(impressions) AS total_impressions, SUM(clicks) AS total_clicks, SUM(cost_micros) / 1000000.0 AS total_cost_usd'',
                        ''SELECT SUM(impressions) AS total_impressions, SUM(clicks) AS total_clicks, SUM(cost_micros) / 1000000.0 AS total_cost_usd FROM ad_performance_daily;''],
      answer = ''SELECT SUM(impressions) AS total_impressions, SUM(clicks) AS total_clicks, SUM(cost_micros) / 1000000.0 AS total_cost_usd FROM ad_performance_daily;'',
      follow_up = Some ''Add AVG(clicks) as avg_clicks to see average per row''\<rparr>"

definition lesson_2_2 :: lesson where
  "lesson_2_2 =
     \<lparr>lesson_id = ''2.2'',
      title = ''GROUP BY - Aggregating by Category'',
      challenge = ''For each campaign_id, show the total impressions, total clicks, and total cost in USD.'',
      hints = [''SELECT campaign_id and your aggregates'',
               ''Use SUM() for each metric'',
               ''GROUP BY campaign_id at the end''],
      solution_steps = [''SELECT campaign_id'',
                        ''SELECT campaign_id, SUM(impressions) AS total_impressions'',
                        ''SELECT campaign_id, SUM(impressions) AS total_impressions, SUM(clicks) AS total_clicks, SUM(cost_micros) / 1000000.0 AS total_cost_usd'',
                        ''SELECT campaign_id, SUM(impressions) AS total_impressions, SUM(clicks) AS total_clicks, SUM(cost_micros) / 1000000.0 AS total_cost_usd FROM ad_performance_daily'',
                        ''SELECT campaign_id, SUM(impressions) AS total_impressions, SUM(clicks) AS total_clicks, SUM(cost_micros) / 1000000.0 AS total_cost_usd FROM ad_performance_daily GROUP BY campaign_id;''],
      answer = ''SELECT campaign_id, SUM(impressions) AS total_impressions, SUM(clicks) AS total_clicks, SUM(cost_micros) / 1000000.0 AS total_cost_usd FROM ad_performance_daily GROUP BY campaign_id;'',
      follow_up = Some ''Try grouping by campaign_id AND device to see breakdown by device''\<rparr>"

definition lesson_2_3 :: lesson where
  "lesson_2_3 =
     \<lparr>lesson_id = ''2.3'',
      title = ''HAVING - Filtering After Aggregation'',
      challenge = ''Show campaigns where total clicks exceed 2000. Display campaign_id, total clicks, and total cost in USD.'',
      hints = [''First write a GROUP BY query for campaign metrics'',
               ''Add HAVING after GROUP BY'',
               ''HAVING SUM(clicks) > 2000''],
      solution_steps = [''SELECT campaign_id, SUM(clicks) AS total_clicks, SUM(cost_micros) / 1000000.0 AS total_cost_usd FROM ad_performance_daily GROUP BY campaign_id'',
                        ''SELECT campaign_id, SUM(clicks) AS total_clicks, SUM(cost_micros) / 1000000.0 AS total_cost_usd FROM ad_performance_daily GROUP BY campaign_id HAVING SUM(clicks) > 2000;''],
      answer = ''SELECT campaign_id, SUM(clicks) AS total_clicks, SUM(cost_micros) / 1000000.0 AS total_cost_usd FROM ad_performance_daily GROUP BY campaign_id HAVING SUM(clicks) > 2000;'',
      follow_up = Some ''Add WHERE device = 'MOBILE' to filter rows BEFORE grouping, keep HAVING''\<rparr>"

definition lesson_3_1 :: lesson where
  "lesson_3_1 =
     \<lparr>lesson_id = ''3.1'',
      title = ''INNER JOIN - Matching Rows Only'',
      challenge = ''Join campaigns to ad_performance_daily to show campaign_name, date, clicks, and cost_micros for each performance row.'',
      hints = [''Start with FROM ad_performance_daily p'',
               ''JOIN campaigns c ON matching campaign_id'',
               ''Select: c.campaign_name, p.date, p.clicks, p.cost_micros''],
      solution_steps = [''SELECT c.campaign_name, p.date, p.clicks, p.cost_micros'',
                        ''SELECT c.campaign_name, p.date, p.clicks, p.cost_micros FROM ad_performance_daily p'',
                        ''SELECT c.campaign_name, p.date, p.clicks, p.cost_micros FROM ad_performance_daily p INNER JOIN campaigns c ON p.campaign_id = c.campaign_id;''],
      answer = ''SELECT c.campaign_name, p.date, p.clicks, p.cost_micros FROM ad_performance_daily p INNER JOIN campaigns c ON p.campaign_id = c.campaign_id;'',
      follow_up = Some ''Add GROUP BY c.campaign_name and aggregate to see totals per campaign name''\<rparr>"

definition lesson_3_2 :: lesson where
  "lesson_3_2 =
     \<lparr>lesson_id = ''3.2'',
      title = ''LEFT JOIN - Keep All Left Rows'',
      challenge = ''Show ALL campaigns (including those with no performance data) with their total clicks. Use COALESCE to show 0 instead of NULL.'',
      hints = [''Start FROM campaigns (left table keeps all rows)'',
               ''LEFT JOIN ad_performance_daily'',
               ''Use COALESCE(SUM(p.clicks), 0) to replace NULL with 0'',
               ''GROUP BY c.campaign_name''],
      solution_steps = [''SELECT c.campaign_name FROM campaigns c'',
                        ''SELECT c.campaign_name FROM campaigns c LEFT JOIN ad_performance_daily p ON c.campaign_id = p.campaign_id'',
                        ''SELECT c.campaign_name, COALESCE(SUM(p.clicks), 0) AS total_clicks FROM campaigns c LEFT JOIN ad_performance_daily p ON c.campaign_id = p.campaign_id'',
                        ''SELECT c.campaign_name, COALESCE(SUM(p.clicks), 0) AS total_clicks FROM campaigns c LEFT JOIN ad_performance_daily p ON c.campaign_id = p.campaign_id GROUP BY c.campaign_name;''],
      answer = ''SELECT c.campaign_name, COALESCE(SUM(p.clicks), 0) AS total_clicks FROM campaigns c LEFT JOIN ad_performance_daily p ON c.campaign_id = p.campaign_id GROUP BY c.campaign_name;'',
      follow_up = Some ''Which campaigns show 0? Why does LEFT JOIN matter vs INNER?''\<rparr>"

definition lesson_3_3 :: lesson where
  "lesson_3_3 =
     \<lparr>lesson_id = ''3.3'',
      title = ''Multi-Table JOINs'',
      challenge = ''Write a 3-table join: Show campaign_name, ad_group_name, total impressions, total clicks, and total conversions for each ad group.'',
      hints = [''FROM ad_performance_daily p (fact table)'',
               ''JOIN campaigns c ON campaign_id'',
               ''JOIN ad_groups ag ON ad_group_id'',
               ''GROUP BY c.campaign_name, ag.ad_group_name'',
               ''SUM the metrics''],
      solution_steps = [''SELECT c.campaign_name, ag.ad_group_name'',
                        ''SELECT c.campaign_name, ag.ad_group_name, SUM(p.impressions) AS total_impr, SUM(p.clicks) AS total_clicks, SUM(p.conversions) AS total_conv'',
                        ''SELECT c.campaign_name, ag.ad_group_name, SUM(p.impressions) AS total_impr, SUM(p.clicks) AS total_clicks, SUM(p.conversions) AS total_conv FROM ad_performance_daily p'',
                        ''SELECT c.campaign_name, ag.ad_group_name, SUM(p.impressions) AS total_impr, SUM(p.clicks) AS total_clicks, SUM(p.conversions) AS total_conv FROM ad_performance_daily p JOIN campaigns c ON p.campaign_id = c.campaign_id JOIN ad_groups ag ON p.ad_group_id = ag.ad_group_id'',
                        ''SELECT c.campaign_name, ag.ad_group_name, SUM(p.impressions) AS total_impr, SUM(p.clicks) AS total_clicks, SUM(p.conversions) AS total_conv FROM ad_performance_daily p JOIN campaigns c ON p.campaign_id = c.campaign_id JOIN ad_groups ag ON p.ad_group_id = ag.ad_group_id GROUP BY c.campaign_name, ag.ad_group_name;''],
      answer = ''SELECT c.campaign_name, ag.ad_group_name, SUM(p.impressions) AS total_impr, SUM(p.clicks) AS total_clicks, SUM(p.conversions) AS total_conv FROM ad_performance_daily p JOIN campaigns c ON p.campaign_id = c.campaign_id JOIN ad_groups ag ON p.ad_group_id = ag.ad_group_id GROUP BY c.campaign_name, ag.ad_group_name;'',
      follow_up = Some ''Add CTR column: SUM(clicks) * 100.0 / SUM(impressions) AS ctr''\<rparr>"

definition lesson_4_1 :: lesson where
  "lesson_4_1 =
     \<lparr>lesson_id = ''4.1'',
      title = ''Window Functions - The TSC III Separator'',
      challenge = ''For each row in ad_performance_daily, rank by clicks within each campaign_id (highest first). Show campaign_id, date, device, clicks, and rank.'',
      hints = [''Use RANK() OVER (...)'',
               ''PARTITION BY campaign_id'',
               ''ORDER BY clicks DESC'',
               ''Give the rank an alias like click_rank''],
      solution_steps = [''SELECT campaign_id, date, device, clicks'',
                        ''SELECT campaign_id, date, device, clicks, RANK() OVER (...) AS click_rank'',
                        ''SELECT campaign_id, date, device, clicks, RANK() OVER (PARTITION BY campaign_id ORDER BY clicks DESC) AS click_rank'',
                        ''SELECT campaign_id, date, device, clicks, RANK() OVER (PARTITION BY campaign_id ORDER BY clicks DESC) AS click_rank FROM ad_performance_daily;''],
      answer = ''SELECT campaign_id, date, device, clicks, RANK() OVER (PARTITION BY campaign_id ORDER BY clicks DESC) AS click_rank FROM ad_performance_daily;'',
      follow_up = Some ''Change RANK to ROW_NUMBER and DENSE_RANK - observe how ties differ''\<rparr>"

definition lesson_4_2 :: lesson where
  "lesson_4_2 =
     \<lparr>lesson_id = ''4.2'',
      title = ''LAG/LEAD & Running Totals'',
      challenge = ''For campaign_id = 1, show date, daily total clicks, and previous day's clicks using LAG. First aggregate by date, then apply LAG.'',
      hints = [''Use a CTE or subquery to first get daily totals'',
               ''Filter WHERE campaign_id = 1'',
               ''GROUP BY date to get daily totals'',
               ''Then apply LAG(daily_clicks, 1) OVER (ORDER BY date)''],
      solution_steps = [''First get daily totals: SELECT date, SUM(clicks) AS daily_clicks FROM ad_performance_daily WHERE campaign_id = 1 GROUP BY date'',
                        ''Wrap in CTE: WITH daily AS (SELECT date, SUM(clicks) AS daily_clicks FROM ad_performance_daily WHERE campaign_id = 1 GROUP BY date)'',
                        ''Add LAG: WITH daily AS (...) SELECT date, daily_clicks, LAG(daily_clicks, 1) OVER (ORDER BY date) AS prev_day_clicks FROM daily'',
                        ''WITH daily AS (SELECT date, SUM(clicks) AS daily_clicks FROM ad_performance_daily WHERE campaign_id = 1 GROUP BY date) SELECT date, daily_clicks, LAG(daily_clicks, 1) OVER (ORDER BY date) AS prev_day_clicks FROM daily ORDER BY date;''],
      answer = ''WITH daily AS (SELECT date, SUM(clicks) AS daily_clicks FROM ad_performance_daily WHERE campaign_id = 1 GROUP BY date) SELECT date, daily_clicks, LAG(daily_clicks, 1) OVER (ORDER BY date) AS prev_day_clicks FROM daily ORDER BY date;'',
      follow_up = Some ''Add day-over-day change: daily_clicks - LAG(...)''\<rparr>"

definition lesson_4_3 :: lesson where
  "lesson_4_3 =
     \<lparr>lesson_id = ''4.3'',
      title = ''CTEs - Clean, Readable Queries'',
      challenge = ''Use a CTE to calculate total spend and conversions per campaign, then calculate cost per conversion (CPA). Join to campaigns for the name.'',
      hints = [''Create CTE: WITH campaign_metrics AS (SELECT campaign_id, SUM(cost_micros)/1000000.0 AS total_cost_usd, SUM(conversions) AS total_conversions FROM ad_performance_daily GROUP BY campaign_id)'',
               ''In main query, JOIN to campaigns'',
               ''Calculate CPA: total_cost_usd / total_conversions'',
               ''Use CASE WHEN to avoid divide by zero''],
      solution_steps = [''WITH campaign_metrics AS (SELECT campaign_id, SUM(cost_micros) / 1000000.0 AS total_cost_usd, SUM(conversions) AS total_conversions FROM ad_performance_daily GROUP BY campaign_id)'',
                        ''WITH campaign_metrics AS (...) SELECT c.campaign_name, cm.total_cost_usd, cm.total_conversions FROM campaign_metrics cm JOIN campaigns c ON cm.campaign_id = c.campaign_id'',
                        ''WITH campaign_metrics AS (SELECT campaign_id, SUM(cost_micros) / 1000000.0 AS total_cost_usd, SUM(conversions) AS total_conversions FROM ad_performance_daily GROUP BY campaign_id) SELECT c.campaign_name, cm.total_cost_usd, cm.total_conversions, CASE WHEN cm.total_conversions > 0 THEN ROUND(cm.total_cost_usd / cm.total_conversions, 2) ELSE NULL END AS cpa FROM campaign_metrics cm JOIN campaigns c ON cm.campaign_id = c.campaign_id ORDER BY cpa;''],
      answer = ''WITH campaign_metrics AS (SELECT campaign_id, SUM(cost_micros) / 1000000.0 AS total_cost_usd, SUM(conversions) AS total_conversions FROM ad_performance_daily GROUP BY campaign_id) SELECT c.campaign_name, cm.total_cost_usd, cm.total_conversions, CASE WHEN cm.total_conversions > 0 THEN ROUND(cm.total_cost_usd / cm.total_conversions, 2) ELSE NULL END AS cpa FROM campaign_metrics cm JOIN campaigns c ON cm.campaign_id = c.campaign_id ORDER BY cpa;'',
      follow_up = Some ''Add a second CTE for search term waste (terms with 0 conversions)''\<rparr>"

definition phase_1 :: phase where
  "phase_1 =
     \<lparr>phase_id = 1,
      phase_title = ''Foundations'',
      description = ''SELECT, FROM, WHERE, ORDER BY, LIMIT - the building blocks'',
      lessons = [lesson_1_1, lesson_1_2, lesson_1_3, lesson_1_4]\<rparr>"

definition phase_2 :: phase where
  "phase_2 =
     \<lparr>phase_id = 2,
      phase_title = ''Aggregation & GROUP BY'',
      description = ''COUNT, SUM, AVG, GROUP BY, HAVING - analyzing data at scale'',
      lessons = [lesson_2_1, lesson_2_2, lesson_2_3]\<rparr>"

definition phase_3 :: phase where
  "phase_3 =
     \<lparr>phase_id = 3,
      phase_title = ''JOINs'',
      description = ''INNER, LEFT, multi-table - combining data across tables'',
      lessons = [lesson_3_1, lesson_3_2, lesson_3_3]\<rparr>"

definition phase_4 :: phase where
  "phase_4 =
     \<lparr>phase_id = 4,
      phase_title = ''Window Functions & CTEs'',
      description = ''ROW_NUMBER, RANK, LAG/LEAD, WITH clauses - advanced patterns'',
      lessons = [lesson_4_1, lesson_4_2, lesson_4_3]\<rparr>"

definition CURRICULUM :: "phase list" where
  "CURRICULUM = [phase_1, phase_2, phase_3, phase_4]"

section \<open>Progress and lesson lookup\<close>

text \<open>
  The progress dictionary, as \<open>load_progress\<close> creates it and \<open>json.dump\<close> writes it.
  \<open>hint_counts\<close> is a JSON object, kept as an association list. A progress file that
  exists is taken to hold a record of this shape; its \<open>current_lesson\<close> may be any string.
\<close>

record progress_t =
  current_lesson :: string
  completed_lessons :: "string list"
  hint_counts :: "(string \<times> int) list"
  started_at :: string

text \<open>
  \<open>load_progress\<close>: the content of the progress file when it exists (\<open>Some\<close>), the defaults
  otherwise. \<open>now\<close> is \<open>datetime.now().isoformat()\<close>.
\<close>

definition load_progress :: "progress_t option \<Rightarrow> string \<Rightarrow> progress_t" where
  "load_progress file now =
     (case file of
        Some p \<Rightarrow> p
      | None \<Rightarrow> \<lparr>current_lesson = ''1.1'', completed_lessons = [],
                  hint_counts = [], started_at = now\<rparr>)"

text \<open>The lessons in declaration order, each with its phase: the order of the nested loops.\<close>

definition lesson_pairs :: "(lesson \<times> phase) list" where
  "lesson_pairs = concat (map (\<lambda>ph. map (\<lambda>l. (l, ph)) (lessons ph)) CURRICULUM)"

definition get_lesson_by_id :: "string \<Rightarrow> (lesson \<times> phase) option" where
  "get_lesson_by_id lid = find (\<lambda>(l, ph). lesson_id l = lid) lesson_pairs"

definition get_next_lesson_id :: "string \<Rightarrow> string option" where
  "get_next_lesson_id current_id =
     (let all_lessons = map (\<lambda>(l, ph). lesson_id l) lesson_pairs in
      case index_of all_lessons current_id of
        Some idx \<Rightarrow> if idx + 1 < length all_lessons then Some (all_lessons ! (idx + 1)) else None
      | None \<Rightarrow> None)"

definition get_total_lessons :: nat where
  "get_total_lessons = sum_list (map (\<lambda>p. length (lessons p)) CURRICULUM)"

section \<open>Query execution and the execution-order explanation\<close>

text \<open>
  SQLite is outside the program: \<open>'db sqlite\<close> is what connecting to the database file and
  executing one statement does, \<open>Inl e\<close> for an exception whose text \<open>str(e)\<close> is \<open>e\<close>,
  \<open>Inr (columns, rows)\<close> otherwise, together with the database afterwards. A cell is the
  text \<open>str\<close> gives it. \<open>execute_sql\<close> returns the triple \<open>(columns, rows, error)\<close>.
  Opening the database is taken to succeed.
\<close>

type_synonym row = "string list"

type_synonym 'db sqlite = "'db \<Rightarrow> string \<Rightarrow> (string + string list \<times> row list) \<times> 'db"

definition execute_sql ::
  "'db sqlite \<Rightarrow> 'db \<Rightarrow> string \<Rightarrow> (string list option \<times> row list option \<times> string option) \<times> 'db"
where
  "execute_sql sq d sql =
     (case sq d sql of
        (Inr (columns, rows), d') \<Rightarrow> ((Some columns, Some rows, None), d')
      | (Inl e, d') \<Rightarrow> ((None, None, Some e), d'))"

datatype clause = CTE | FROM | JOIN | WHERE | GROUP_BY | HAVING | SELECT | DISTINCT | ORDER_BY | LIMIT

text \<open>One \<open>if has_x: steps.append(f"{step_num}. X ..."); step_num += 1\<close> of the source.\<close>

definition append_step ::
  "bool \<Rightarrow> clause \<Rightarrow> (nat \<times> clause) list \<times> nat \<Rightarrow> (nat \<times> clause) list \<times> nat"
where
  "append_step has c st =
     (case st of (steps, step_num) \<Rightarrow>
        if has then (steps @ [(step_num, c)], step_num + 1) else (steps, step_num))"

text \<open>\<open>explain_execution_order\<close>: the numbered steps it prints, in order.\<close>

definition explain_execution_order :: "string \<Rightarrow> (nat \<times> clause) list" where
  "explain_execution_order sql =
     (let sql_lower = lower sql;
          has_cte = py_in ''with '' sql_lower;
          has_from = py_in ''from '' sql_lower;
          has_join = py_in ''join '' sql_lower;
          has_where = py_in ''where '' sql_lower;
          has_group = py_in ''group by'' sql_lower;
          has_having = py_in ''having '' sql_lower;
          has_select = py_in ''select '' sql_lower;
          has_distinct = py_in ''distinct'' sql_lower;
          has_order = py_in ''order by'' sql_lower;
          has_limit = py_in ''limit '' sql_lower
      in fst (append_step has_limit LIMIT
             (append_step has_order ORDER_BY
             (append_step has_distinct DISTINCT
             (append_step has_select SELECT
             (append_step has_having HAVING
             (append_step has_group GROUP_BY
             (append_step has_where WHERE
             (append_step has_join JOIN
             (append_step has_from FROM
             (append_step has_cte CTE ([], 1))))))))))))"

section \<open>The coach\<close>

text \<open>
  What the program prints, one constructor per display function; ANSI colour codes and
  blank lines are left out of the texts.
\<close>

datatype payload =
    ErrorBox string
  | SuccessBox string
  | HintBox nat nat string
  | NextStepBox nat nat string
  | AnswerBox string
  | TableOut "string list option" "row list option"
  | ExecutionOrder "(nat \<times> clause) list"
  | ProgressBar nat nat
  | LessonView phase lesson
  | ProgressReport "string list" string
  | Print string
  | ClearScreen
  | Banner
  | Welcome
  | Schema
  | TablesList
  | HelpText

text \<open>
  The \<open>SQLCoach\<close> object (\<open>progress\<close>, \<open>current_hint\<close>, \<open>current_step\<close>, \<open>last_query\<close>)
  together with what it acts on: the progress file (\<open>None\<close> while it does not exist), the
  database, and the terminal output so far. \<open>saves\<close> records every dictionary that
  \<open>save_progress\<close> has written, oldest first.
\<close>

record 'db coach =
  progress :: progress_t
  current_hint :: nat
  current_step :: nat
  last_query :: "string option"
  progress_file :: "progress_t option"
  saves :: "progress_t list"
  db :: 'db
  out :: "payload list"

definition emit :: "payload list \<Rightarrow> 'db coach \<Rightarrow> 'db coach" where
  "emit ps s = s\<lparr>out := out s @ ps\<rparr>"

definition save_progress :: "progress_t \<Rightarrow> 'db coach \<Rightarrow> 'db coach" where
  "save_progress p s = s\<lparr>progress_file := Some p, saves := saves s @ [p]\<rparr>"

text \<open>\<open>SQLCoach.__init__\<close>, given the progress file, the clock and the database.\<close>

definition init :: "progress_t option \<Rightarrow> string \<Rightarrow> 'db \<Rightarrow> 'db coach" where
  "init f now d =
     \<lparr>progress = load_progress f now, current_hint = 0, current_step = 0,
      last_query = None, progress_file = f, saves = [], db = d, out = []\<rparr>"

definition show_current_lesson :: "'db coach \<Rightarrow> 'db coach" where
  "show_current_lesson s =
     (case get_lesson_by_id (current_lesson (progress s)) of
        None \<Rightarrow> emit [ErrorBox ''Lesson not found!''] s
      | Some (lesson, phase) \<Rightarrow>
          emit [ProgressBar (length (completed_lessons (progress s))) get_total_lessons,
                LessonView phase lesson]
            (s\<lparr>current_hint := 0, current_step := 0\<rparr>))"

text \<open>The branches of \<open>handle_command\<close>, in the order of the source.\<close>

definition success_message :: "lesson \<Rightarrow> string" where
  "success_message lesson =
     ''Perfect! That matches the expected solution!'' @ [CHR 0x0A, CHR 0x0A] @ ''Follow-up: '' @
     (case follow_up lesson of Some f \<Rightarrow> f | None \<Rightarrow> ''Try the next lesson!'')"

definition cmd_run ::
  "'db sqlite \<Rightarrow> (lesson \<times> phase) option \<Rightarrow> string \<Rightarrow> 'db coach \<Rightarrow> 'db coach" where
  "cmd_run sq lesson cmd s =
     (let sql = strip (drop 4 cmd);
          s1 = s\<lparr>last_query := Some sql\<rparr>
      in case execute_sql sq (db s1) sql of
           ((columns, rows, error), d') \<Rightarrow>
             let s2 = s1\<lparr>db := d'\<rparr> in
             if truthy error
             then emit [ErrorBox (''SQL Error:'' @ [CHR 0x0A] @ the error)] s2
             else
               let s3 = emit [Print ''Query executed successfully!'', TableOut columns rows] s2
               in case lesson of
                    Some (l, ph) \<Rightarrow>
                      if normalize_sql sql = normalize_sql (answer l)
                      then emit [SuccessBox (success_message l)] s3
                      else s3
                  | None \<Rightarrow> s3)"

definition cmd_hint :: "(lesson \<times> phase) option \<Rightarrow> 'db coach \<Rightarrow> py_error + 'db coach" where
  "cmd_hint lesson s =
     (case lesson of
        None \<Rightarrow> Inr s
      | Some (l, ph) \<Rightarrow>
          if current_hint s < length (hints l)
          then (case py_index (hints l) (current_hint s) of
                  Inl e \<Rightarrow> Inl e
                | Inr h \<Rightarrow>
                    Inr ((emit [HintBox (current_hint s + 1) (length (hints l)) h] s)
                           \<lparr>current_hint := current_hint s + 1\<rparr>))
          else Inr (emit [Print ''No more hints! Type 'answer' to see the solution.''] s))"

definition cmd_next :: "(lesson \<times> phase) option \<Rightarrow> 'db coach \<Rightarrow> py_error + 'db coach" where
  "cmd_next lesson s =
     (case lesson of
        None \<Rightarrow> Inr s
      | Some (l, ph) \<Rightarrow>
          if current_step s < length (solution_steps l)
          then (case py_index (solution_steps l) (current_step s) of
                  Inl e \<Rightarrow> Inl e
                | Inr t \<Rightarrow>
                    Inr ((emit [NextStepBox (current_step s + 1) (length (solution_steps l)) t] s)
                           \<lparr>current_step := current_step s + 1\<rparr>))
          else Inr (emit [Print ''No more steps! Here's the full solution:'', AnswerBox (answer l)] s))"

definition cmd_answer :: "(lesson \<times> phase) option \<Rightarrow> 'db coach \<Rightarrow> 'db coach" where
  "cmd_answer lesson s =
     (case lesson of
        Some (l, ph) \<Rightarrow> emit [AnswerBox (answer l)] s
      | None \<Rightarrow> s)"

definition cmd_explain :: "'db coach \<Rightarrow> 'db coach" where
  "cmd_explain s =
     (if truthy (last_query s)
      then emit [ExecutionOrder (explain_execution_order (the (last_query s)))] s
      else emit [Print ''Run a query first, then type 'explain' to see execution order.''] s)"

definition cmd_skip :: "(lesson \<times> phase) option \<Rightarrow> 'db coach \<Rightarrow> 'db coach" where
  "cmd_skip lesson s =
     (case lesson of
        None \<Rightarrow> s
      | Some (l, ph) \<Rightarrow>
          let p1 = (if lesson_id l \<notin> set (completed_lessons (progress s))
                    then (progress s)\<lparr>completed_lessons :=
                           completed_lessons (progress s) @ [lesson_id l]\<rparr>
                    else progress s);
              s1 = s\<lparr>progress := p1\<rparr>;
              next_id = get_next_lesson_id (lesson_id l)
          in if truthy next_id
             then let p2 = p1\<lparr>current_lesson := the next_id\<rparr>;
                      s2 = save_progress p2 (s1\<lparr>progress := p2\<rparr>)
                  in show_current_lesson (emit [ClearScreen, Banner] s2)
             else emit [SuccessBox ''Congratulations! You've completed all lessons!''] s1)"

definition cmd_lesson :: "string \<Rightarrow> 'db coach \<Rightarrow> 'db coach" where
  "cmd_lesson cmd s =
     (let lid = strip (drop 7 cmd) in
      case get_lesson_by_id lid of
        Some test_lesson \<Rightarrow>
          let p1 = (progress s)\<lparr>current_lesson := lid\<rparr>;
              s1 = save_progress p1 (s\<lparr>progress := p1\<rparr>)
          in show_current_lesson (emit [ClearScreen, Banner] s1)
      | None \<Rightarrow>
          emit [ErrorBox (''Lesson '' @ [CHR 0x27] @ lid @ [CHR 0x27] @
                          '' not found. Use format like '1.2' or '3.1'' @ [CHR 0x27])] s)"

definition cmd_progress :: "'db coach \<Rightarrow> 'db coach" where
  "cmd_progress s =
     emit [Print ''Your Progress:'',
           ProgressBar (length (completed_lessons (progress s))) get_total_lessons,
           ProgressReport (completed_lessons (progress s)) (current_lesson (progress s))] s"

definition cmd_reset :: "'db coach \<Rightarrow> 'db coach" where
  "cmd_reset s =
     emit [Print ''Lesson progress reset. Hints and steps start from beginning.'']
       (s\<lparr>current_hint := 0, current_step := 0\<rparr>)"

definition cmd_clear :: "'db coach \<Rightarrow> 'db coach" where
  "cmd_clear s = show_current_lesson (emit [ClearScreen, Banner] s)"

definition cmd_quit :: "'db coach \<Rightarrow> 'db coach" where
  "cmd_quit s = emit [Print ''Progress saved! See you next time.''] (save_progress (progress s) s)"

text \<open>The last branch: input that is no command is tried as SQL when it holds a keyword.\<close>

definition looks_like_sql :: "string \<Rightarrow> bool" where
  "looks_like_sql cmd_lower =
     list_ex (\<lambda>kw. py_in kw cmd_lower) [''select'', ''with'', ''insert'', ''update'', ''delete'']"

definition cmd_other :: "'db sqlite \<Rightarrow> string \<Rightarrow> string \<Rightarrow> 'db coach \<Rightarrow> 'db coach" where
  "cmd_other sq cmd cmd_lower s =
     (if looks_like_sql cmd_lower
      then let s1 = s\<lparr>last_query := Some cmd\<rparr>
           in case execute_sql sq (db s1) cmd of
                ((columns, rows, error), d') \<Rightarrow>
                  let s2 = s1\<lparr>db := d'\<rparr> in
                  if truthy error
                  then emit [ErrorBox (''SQL Error:'' @ [CHR 0x0A] @ the error)] s2
                  else emit [Print ''Query executed!'', TableOut columns rows] s2
      else emit [Print ''Unknown command. Type 'help' for available commands.''] s)"

text \<open>
  \<open>handle_command\<close>: the result is an exception, or the flag the main loop tests
  (\<open>False\<close> to stop) with the state afterwards.
\<close>

definition handle_command ::
  "'db sqlite \<Rightarrow> 'db coach \<Rightarrow> string \<Rightarrow> py_error + bool \<times> 'db coach" where
  "handle_command sq s cmd0 =
     (let cmd = strip cmd0 in
      if cmd = [] then Inr (True, s)
      else
        let cmd_lower = lower cmd;
            lesson = get_lesson_by_id (current_lesson (progress s))
        in
        if startswith cmd_lower ''run '' then Inr (True, cmd_run sq lesson cmd s)
        else if cmd_lower = ''hint'' \<or> cmd_lower = ''stuck'' \<or> cmd_lower = ''help me''
          then map_sum id (Pair True) (cmd_hint lesson s)
        else if cmd_lower = ''next'' then map_sum id (Pair True) (cmd_next lesson s)
        else if cmd_lower = ''answer'' \<or> cmd_lower = ''solution''
          then Inr (True, cmd_answer lesson s)
        else if cmd_lower = ''explain'' then Inr (True, cmd_explain s)
        else if cmd_lower = ''schema'' then Inr (True, emit [Schema] s)
        else if cmd_lower = ''tables'' then Inr (True, emit [TablesList] s)
        else if cmd_lower = ''skip'' then Inr (True, cmd_skip lesson s)
        else if startswith cmd_lower ''lesson '' then Inr (True, cmd_lesson cmd s)
        else if cmd_lower = ''progress'' then Inr (True, cmd_progress s)
        else if cmd_lower = ''reset'' then Inr (True, cmd_reset s)
        else if cmd_lower = ''help'' \<or> cmd_lower = ''?'' then Inr (True, emit [HelpText] s)
        else if cmd_lower = ''clear'' \<or> cmd_lower = ''cls'' then Inr (True, cmd_clear s)
        else if cmd_lower \<in> set [''quit'', ''exit'', ''q''] then Inr (False, cmd_quit s)
        else Inr (True, cmd_other sq cmd cmd_lower s))"

text \<open>
  \<open>SQLCoach.run\<close>: what \<open>input\<close> yields is a line, a \<open>KeyboardInterrupt\<close> or an
  \<open>EOFError\<close>. The loop of the source waits for input for ever; here it ends with the
  inputs given. An interrupt is taken while the program waits at its prompt.
\<close>

datatype input_event = Line string | KeyboardInterrupt | EOFError

fun main_loop :: "'db sqlite \<Rightarrow> input_event list \<Rightarrow> 'db coach \<Rightarrow> py_error + 'db coach" where
  "main_loop sq [] s = Inr s"
| "main_loop sq (Line cmd # rest) s =
     (case handle_command sq s cmd of
        Inl e \<Rightarrow> Inl e
      | Inr (continue, s') \<Rightarrow> if continue then main_loop sq rest s' else Inr s')"
| "main_loop sq (KeyboardInterrupt # rest) s =
     Inr (save_progress (progress s) (emit [Print ''Progress saved! Goodbye.''] s))"
| "main_loop sq (EOFError # rest) s = Inr s"

definition run :: "'db sqlite \<Rightarrow> input_event list \<Rightarrow> 'db coach \<Rightarrow> py_error + 'db coach" where
  "run sq inputs s =
     main_loop sq inputs (show_current_lesson (emit [ClearScreen, Banner, Welcome] s))"

section \<open>Notions used to state the properties\<close>

text \<open>
  The state with which \<open>run\<close> enters its loop, given the progress file, the clock and
  the database.
\<close>

definition entry_state :: "progress_t option \<Rightarrow> string \<Rightarrow> 'db \<Rightarrow> 'db coach" where
  "entry_state f now d = show_current_lesson (emit [ClearScreen, Banner, Welcome] (init f now d))"

text \<open>
  The state in which the main loop reads its next command after the input lines \<open>cmds\<close>;
  \<open>None\<close> when one of them has ended the loop.
\<close>

fun state_after :: "'db sqlite \<Rightarrow> string list \<Rightarrow> 'db coach \<Rightarrow> 'db coach option" where
  "state_after sq [] s = Some s"
| "state_after sq (cmd # cmds) s =
     (case handle_command sq s cmd of
        Inr (continue, s') \<Rightarrow> if continue then state_after sq cmds s' else None
      | Inl e \<Rightarrow> None)"

text \<open>
  The input lines that \<open>handle_command\<close> takes for one of its named commands other than
  \<open>run\<close>, by their stripped, lower-cased text.
\<close>

definition is_builtin :: "string \<Rightarrow> bool" where
  "is_builtin cmd_lower =
     (cmd_lower \<in> set [''hint'', ''stuck'', ''help me'', ''next'', ''answer'', ''solution'',
                        ''explain'', ''schema'', ''tables'', ''skip'', ''progress'', ''reset'',
                        ''help'', ''?'', ''clear'', ''cls'', ''quit'', ''exit'', ''q'']
      \<or> startswith cmd_lower ''lesson '')"


text \<open>The clauses in the order \<open>explain_execution_order\<close> tests them.\<close>

definition evaluation_order :: "clause list" where
  "evaluation_order = [CTE, FROM, JOIN, WHERE, GROUP_BY, HAVING, SELECT, DISTINCT, ORDER_BY, LIMIT]"

text \<open>The text \<open>explain_execution_order\<close> searches for, clause by clause.\<close>

fun search_string :: "clause \<Rightarrow> string" where
  "search_string CTE = ''with ''"
| "search_string FROM = ''from ''"
| "search_string JOIN = ''join ''"
| "search_string WHERE = ''where ''"
| "search_string GROUP_BY = ''group by''"
| "search_string HAVING = ''having ''"
| "search_string SELECT = ''select ''"
| "search_string DISTINCT = ''distinct''"
| "search_string ORDER_BY = ''order by''"
| "search_string LIMIT = ''limit ''"

text \<open>The clause keywords as the specification of \<open>explain\<close> lists them.\<close>

fun spec_keyword :: "clause \<Rightarrow> string" where
  "spec_keyword CTE = ''with''"
| "spec_keyword FROM = ''from''"
| "spec_keyword JOIN = ''join''"
| "spec_keyword WHERE = ''where''"
| "spec_keyword GROUP_BY = ''group by''"
| "spec_keyword HAVING = ''having''"
| "spec_keyword SELECT = ''select''"
| "spec_keyword DISTINCT = ''distinct''"
| "spec_keyword ORDER_BY = ''order by''"
| "spec_keyword LIMIT = ''limit''"

text \<open>The steps numbered from 1, as \<open>step_num\<close> counts them.\<close>

definition numbered :: "clause list \<Rightarrow> (nat \<times> clause) list" where
  "numbered cs = zip [1 ..< Suc (length cs)] cs"

text \<open>The commands that ask for a hint.\<close>

definition is_hint_cmd :: "string \<Rightarrow> bool" where
  "is_hint_cmd cmd0 = (lower (strip cmd0) \<in> set [''hint'', ''stuck'', ''help me''])"

text \<open>The commands that set the cursors back: \<open>reset\<close>, \<open>clear\<close>, \<open>cls\<close> and \<open>lesson <id>\<close>.\<close>

definition is_reset_cmd :: "string \<Rightarrow> bool" where
  "is_reset_cmd cmd0 =
     (lower (strip cmd0) \<in> set [''reset'', ''clear'', ''cls''] \<or>
      startswith (lower (strip cmd0)) ''lesson '')"

text \<open>
  \<open>hint_counts\<close> is \<open>h\<close> in the progress dictionary in memory and in every dictionary
  written so far.
\<close>

definition hint_counts_kept :: "(string \<times> int) list \<Rightarrow> 'db coach \<Rightarrow> bool" where
  "hint_counts_kept h s =
     (hint_counts (progress s) = h \<and> list_all (\<lambda>p. hint_counts p = h) (saves s))"

text \<open>
  Concrete runs: a database stub on which every statement succeeds with an empty result and
  one on which every statement fails, the state in which a first run enters its loop, and
  that state after one \<open>hint\<close>.
\<close>

definition sqlite_ok :: "unit sqlite" where
  "sqlite_ok d sql = (Inr ([], []), d)"


definition fresh :: "unit coach" where
  "fresh = entry_state None ''2026-01-01T09:00:00'' ()"

definition hinted :: "unit coach" where
  "hinted = (emit [HintBox 1 3 ''You need SELECT and FROM - two keywords''] fresh)
              \<lparr>current_hint := 1\<rparr>"

text \<open>A progress file whose \<open>current_lesson\<close> names no lesson, and the state loaded from it.\<close>

definition stale_progress :: progress_t where
  "stale_progress =
     \<lparr>current_lesson = ''9.9'', completed_lessons = [''1.1''], hint_counts = [],
      started_at = ''2026-01-01T09:00:00''\<rparr>"

definition stale :: "unit coach" where
  "stale = entry_state (Some stale_progress) ''2026-01-02T09:00:00'' ()"

text \<open>A progress file that stands at the last lesson, and the state loaded from it.\<close>

definition final_progress :: progress_t where
  "final_progress =
     \<lparr>current_lesson = ''4.3'', completed_lessons = [], hint_counts = [],
      started_at = ''2026-01-01T09:00:00''\<rparr>"

definition at_final :: "unit coach" where
  "at_final = entry_state (Some final_progress) ''2026-01-02T09:00:00'' ()"

section \<open>Facts about the string operations\<close>


lemma lower_char_idem: "lower_char (lower_char c) = lower_char c"
  unfolding lower_char_def Let_def
  by (auto simp: of_char_of)

lemma lower_char_space: "lower_char (CHR '' '') = CHR '' ''"
  by (simp add: lower_char_def)

lemma isspace_space: "isspace (CHR '' '')"
  by (simp add: isspace_def)

lemma not_isspace_semi: "\<not> isspace (CHR '';'')"
  by (simp add: isspace_def)

lemma set_sub_ws: "set (sub_ws xs) \<subseteq> insert (CHR '' '') (set xs)"
proof (induction xs rule: sub_ws.induct)
  case 1
  then show ?case by simp
next
  case (2 c cs)
  have d: "set (dropWhile isspace cs) \<subseteq> set cs"
    using set_dropWhileD by fastforce
  show ?case
  proof (cases "isspace c")
    case True
    with 2(1) d show ?thesis by auto
  next
    case False
    with 2(2) show ?thesis by auto
  qed
qed

lemma sub_ws_space_only: "c \<in> set (sub_ws xs) \<Longrightarrow> isspace c \<Longrightarrow> c = CHR '' ''"
proof (induction xs rule: sub_ws.induct)
  case 1
  then show ?case by simp
next
  case (2 d ds)
  show ?case
  proof (cases "isspace d")
    case True
    with 2 show ?thesis by auto
  next
    case False
    with 2 show ?thesis by auto
  qed
qed

lemma dropWhile_sub_ws:
  "xs = [] \<or> \<not> isspace (hd xs) \<Longrightarrow> dropWhile isspace (sub_ws xs) = sub_ws xs"
  by (cases xs) auto

lemma dropWhile_head: "dropWhile P xs = [] \<or> \<not> P (hd (dropWhile P xs))"
  by (metis hd_dropWhile)

lemma sub_ws_idem: "sub_ws (sub_ws xs) = sub_ws xs"
proof (induction xs rule: sub_ws.induct)
  case 1
  then show ?case by simp
next
  case (2 c cs)
  show ?case
  proof (cases "isspace c")
    case True
    have "dropWhile isspace (sub_ws (dropWhile isspace cs)) = sub_ws (dropWhile isspace cs)"
      by (rule dropWhile_sub_ws) (rule dropWhile_head)
    with True 2 show ?thesis by (simp add: isspace_space)
  next
    case False
    with 2 show ?thesis by simp
  qed
qed

lemma length_sub_ws: "length (sub_ws xs) \<le> length xs"
proof (induction xs rule: sub_ws.induct)
  case 1
  then show ?case by simp
next
  case (2 c cs)
  have d: "length (dropWhile isspace cs) \<le> length cs" by (rule length_dropWhile_le)
  show ?case
  proof (cases "isspace c")
    case True
    with 2(1) d show ?thesis by simp
  next
    case False
    with 2(2) show ?thesis by simp
  qed
qed

lemma sub_ws_Nil_iff: "sub_ws xs = [] \<longleftrightarrow> xs = []"
  by (cases xs) auto

lemma last_dropWhile: "dropWhile P xs \<noteq> [] \<Longrightarrow> last (dropWhile P xs) = last xs"
  by (metis append_Nil2 last_appendR takeWhile_dropWhile_id)

lemma last_sub_ws:
  "xs \<noteq> [] \<Longrightarrow> last (sub_ws xs) = (if isspace (last xs) then CHR '' '' else last xs)"
proof (induction xs rule: sub_ws.induct)
  case 1
  then show ?case by simp
next
  case (2 c cs)
  show ?case
  proof (cases "isspace c")
    case c: True
    show ?thesis
    proof (cases "dropWhile isspace cs = []")
      case True
      then have "\<forall>x\<in>set cs. isspace x" by (simp add: dropWhile_eq_Nil_conv)
      then have l: "isspace (last (c # cs))" using c by (cases cs) auto
      have e: "sub_ws (dropWhile isspace cs) = []" by (simp only: True sub_ws.simps)
      have "sub_ws (c # cs) = [CHR '' '']" using c e by simp
      with l show ?thesis by simp
    next
      case False
      then have cs: "cs \<noteq> []" by auto
      have l: "last (dropWhile isspace cs) = last cs" using False by (rule last_dropWhile)
      have "last (sub_ws (dropWhile isspace cs)) =
            (if isspace (last (dropWhile isspace cs)) then CHR '' '' else last (dropWhile isspace cs))"
        using 2(1) c False by simp
      with l c False cs show ?thesis
        by (simp add: sub_ws_Nil_iff)
    qed
  next
    case c: False
    show ?thesis
    proof (cases "cs = []")
      case True
      with c show ?thesis by simp
    next
      case False
      with 2(2) c show ?thesis by (simp add: sub_ws_Nil_iff)
    qed
  qed
qed

lemma hd_sub_ws: "xs \<noteq> [] \<Longrightarrow> \<not> isspace (hd xs) \<Longrightarrow> hd (sub_ws xs) = hd xs"
  by (cases xs) auto

lemma rstrip_id: "xs = [] \<or> \<not> isspace (last xs) \<Longrightarrow> rstrip xs = xs"
  unfolding rstrip_def by (cases xs rule: rev_cases) auto

lemma lstrip_id: "xs = [] \<or> \<not> isspace (hd xs) \<Longrightarrow> lstrip xs = xs"
  unfolding lstrip_def by (cases xs) auto

lemma strip_id:
  "xs = [] \<or> (\<not> isspace (hd xs) \<and> \<not> isspace (last xs)) \<Longrightarrow> strip xs = xs"
  unfolding strip_def by (auto simp: rstrip_id lstrip_id)

lemma rstrip_chars_id: "xs = [] \<or> last xs \<notin> set chars \<Longrightarrow> rstrip_chars chars xs = xs"
  unfolding rstrip_chars_def by (cases xs rule: rev_cases) auto

lemma rev_dropWhile_rev_last:
  "rev (dropWhile P (rev xs)) = [] \<or> \<not> P (last (rev (dropWhile P (rev xs))))"
  by (metis hd_dropWhile last_rev rev_is_Nil_conv)

lemma rstrip_chars_last:
  "rstrip_chars chars xs = [] \<or> last (rstrip_chars chars xs) \<notin> set chars"
  unfolding rstrip_chars_def by (rule rev_dropWhile_rev_last)


lemma rev_dropWhile_rev_prefix: "prefix (rev (dropWhile P (rev xs))) xs"
proof -
  have "xs = rev (dropWhile P (rev xs)) @ rev (takeWhile P (rev xs))"
    by (metis rev_append rev_rev_ident takeWhile_dropWhile_id)
  then show ?thesis by (metis prefixI)
qed

lemma prefix_hd: "prefix ys xs \<Longrightarrow> ys \<noteq> [] \<Longrightarrow> hd ys = hd xs"
  by (auto simp: prefix_def)

lemma lstrip_hd: "lstrip xs = [] \<or> \<not> isspace (hd (lstrip xs))"
  unfolding lstrip_def by (rule dropWhile_head)

lemma strip_hd: "strip xs = [] \<or> \<not> isspace (hd (strip xs))"
proof (cases "strip xs = []")
  case True
  then show ?thesis by simp
next
  case False
  have p: "prefix (strip xs) (lstrip xs)"
    unfolding strip_def rstrip_def by (rule rev_dropWhile_rev_prefix)
  then have "hd (strip xs) = hd (lstrip xs)" using False by (rule prefix_hd)
  moreover have "lstrip xs \<noteq> []" using p False by auto
  ultimately show ?thesis using lstrip_hd[of xs] by simp
qed

lemma rstrip_chars_hd:
  "rstrip_chars chars xs \<noteq> [] \<Longrightarrow> hd (rstrip_chars chars xs) = hd xs"
  using rev_dropWhile_rev_prefix[of "\<lambda>c. c \<in> set chars" xs] prefix_hd
  unfolding rstrip_chars_def by blast

lemma set_rev_dropWhile_rev: "set (rev (dropWhile P (rev xs))) \<subseteq> set xs"
  using set_dropWhileD[of _ P "rev xs"] by auto

lemma set_strip: "set (strip xs) \<subseteq> set xs"
proof -
  have "set (strip xs) \<subseteq> set (lstrip xs)"
    unfolding strip_def rstrip_def by (rule set_rev_dropWhile_rev)
  moreover have "set (lstrip xs) \<subseteq> set xs"
    unfolding lstrip_def using set_dropWhileD[of _ isspace xs] by auto
  ultimately show ?thesis by blast
qed

lemma set_rstrip_chars: "set (rstrip_chars chars xs) \<subseteq> set xs"
  unfolding rstrip_chars_def by (rule set_rev_dropWhile_rev)

lemma length_rev_dropWhile_rev: "length (rev (dropWhile P (rev xs))) \<le> length xs"
  using length_dropWhile_le[of P "rev xs"] by simp

lemma length_rstrip_chars: "length (rstrip_chars chars xs) \<le> length xs"
  unfolding rstrip_chars_def by (rule length_rev_dropWhile_rev)

lemma length_rstrip_less:
  "xs \<noteq> [] \<Longrightarrow> isspace (last xs) \<Longrightarrow> length (rstrip xs) < length xs"
proof (cases xs rule: rev_cases)
  case Nil
  assume "xs \<noteq> []"
  with Nil show ?thesis by simp
next
  case (snoc ys y)
  assume "isspace (last xs)"
  with snoc have "rstrip xs = rev (dropWhile isspace (rev ys))" by (simp add: rstrip_def)
  then have "length (rstrip xs) \<le> length ys" using length_rev_dropWhile_rev[of isspace ys] by simp
  with snoc show ?thesis by simp
qed

lemma length_strip_less:
  assumes "xs \<noteq> []" and "isspace (last xs)"
  shows "length (strip xs) < length xs"
proof (cases "lstrip xs = []")
  case True
  then have "strip xs = []" by (simp add: strip_def rstrip_def)
  with assms show ?thesis by simp
next
  case False
  then have "last (lstrip xs) = last xs" unfolding lstrip_def by (rule last_dropWhile)
  with assms False have "length (rstrip (lstrip xs)) < length (lstrip xs)"
    by (simp add: length_rstrip_less)
  moreover have "length (lstrip xs) \<le> length xs"
    unfolding lstrip_def by (rule length_dropWhile_le)
  ultimately show ?thesis by (simp add: strip_def)
qed

lemma lower_normalize_sql: "lower (normalize_sql s) = normalize_sql s"
proof -
  have "lower_char c = c" if "c \<in> set (normalize_sql s)" for c
  proof -
    from that set_sub_ws
    have "c = CHR '' '' \<or> c \<in> set (rstrip_chars '';'' (strip (lower s)))"
      unfolding normalize_sql_def by blast
    then show ?thesis
    proof
      assume "c = CHR '' ''"
      then show ?thesis by (simp add: lower_char_space)
    next
      assume "c \<in> set (rstrip_chars '';'' (strip (lower s)))"
      with set_rstrip_chars set_strip have "c \<in> set (lower s)" by blast
      then obtain d where "c = lower_char d" by (auto simp: lower_def)
      then show ?thesis by (simp add: lower_char_idem)
    qed
  qed
  then show ?thesis unfolding lower_def by (simp add: map_idI)
qed

lemma normalize_sql_hd: "normalize_sql s = [] \<or> \<not> isspace (hd (normalize_sql s))"
proof (cases "rstrip_chars '';'' (strip (lower s)) = []")
  case True
  then show ?thesis by (simp add: normalize_sql_def)
next
  case False
  then have h: "hd (rstrip_chars '';'' (strip (lower s))) = hd (strip (lower s))"
    by (rule rstrip_chars_hd)
  have "strip (lower s) \<noteq> []" using False by (auto simp: rstrip_chars_def)
  with strip_hd[of "lower s"] h
  have n: "\<not> isspace (hd (rstrip_chars '';'' (strip (lower s))))" by simp
  with False show ?thesis by (simp add: normalize_sql_def hd_sub_ws)
qed

lemma normalize_sql_last_semi:
  "normalize_sql s \<noteq> [] \<Longrightarrow> last (normalize_sql s) \<noteq> CHR '';''"
proof -
  assume "normalize_sql s \<noteq> []"
  then have ne: "rstrip_chars '';'' (strip (lower s)) \<noteq> []"
    by (simp add: normalize_sql_def sub_ws_Nil_iff)
  with rstrip_chars_last[of "'';''" "strip (lower s)"]
  have "last (rstrip_chars '';'' (strip (lower s))) \<noteq> CHR '';''" by simp
  with ne show ?thesis by (simp add: normalize_sql_def last_sub_ws)
qed

lemma normalize_sql_last_space:
  assumes "normalize_sql s \<noteq> []" and "last (normalize_sql s) \<noteq> CHR '' ''"
  shows "\<not> isspace (last (normalize_sql s))"
proof
  assume "isspace (last (normalize_sql s))"
  moreover have "last (normalize_sql s) \<in> set (sub_ws (rstrip_chars '';'' (strip (lower s))))"
    using assms(1) unfolding normalize_sql_def by (metis last_in_set)
  ultimately have "last (normalize_sql s) = CHR '' ''" by (metis sub_ws_space_only)
  with assms(2) show False by simp
qed

lemma normalize_sql_sub_ws: "sub_ws (normalize_sql s) = normalize_sql s"
  by (simp add: normalize_sql_def sub_ws_idem)

lemma suffix_space_iff: "suffix '' '' xs \<longleftrightarrow> xs \<noteq> [] \<and> last xs = CHR '' ''"
  by (cases xs rule: rev_cases) (auto simp: suffix_def)

lemmas str_defs =
  normalize_sql_def strip_def lstrip_def rstrip_def rstrip_chars_def lower_def lower_char_def
  isspace_def startswith_def char_of_def bit_Suc_0_iff

section \<open>Normalisation of SQL text (C4)\<close>

text \<open>
  C4: normalisation, which is there to make two SQL texts comparable, is not idempotent.
  The input \<open>SELECT 1 ;\<close> has whitespace before its terminator; \<open>strip()\<close> is called
  before \<open>rstrip(';')\<close>, so the first pass leaves \<open>select 1\<close> followed by a space, and
  only a second pass removes that space.
\<close>

theorem normalize_sql_not_idempotent:
  "normalize_sql ''SELECT 1 ;'' = ''select 1 '' \<and>
   normalize_sql (normalize_sql ''SELECT 1 ;'') = ''select 1'' \<and>
   normalize_sql (normalize_sql ''SELECT 1 ;'') \<noteq> normalize_sql ''SELECT 1 ;''"
  by (simp add: str_defs)

text \<open>
  Where this shows: a second pass changes the result of the first exactly when that result
  ends in a space.
\<close>

lemma normalize_sql_idempotent_iff:
  "normalize_sql (normalize_sql s) = normalize_sql s \<longleftrightarrow> \<not> suffix '' '' (normalize_sql s)"
proof (cases "suffix '' '' (normalize_sql s)")
  case True
  then have ne: "normalize_sql s \<noteq> []" and "isspace (last (normalize_sql s))"
    by (simp_all add: suffix_space_iff isspace_space)
  then have "length (strip (normalize_sql s)) < length (normalize_sql s)"
    by (rule length_strip_less)
  moreover have "length (normalize_sql (normalize_sql s)) \<le> length (strip (normalize_sql s))"
    unfolding normalize_sql_def[of "normalize_sql s"] lower_normalize_sql
    using length_sub_ws length_rstrip_chars le_trans by blast
  ultimately have "normalize_sql (normalize_sql s) \<noteq> normalize_sql s" by auto
  with True show ?thesis by simp
next
  case False
  have "normalize_sql (normalize_sql s) = normalize_sql s"
  proof (cases "normalize_sql s = []")
    case True
    then show ?thesis
      by (simp add: normalize_sql_def[of "[]"] lower_def strip_def rstrip_def lstrip_def
          rstrip_chars_def)
  next
    case ne: False
    with False have l: "last (normalize_sql s) \<noteq> CHR '' ''" by (simp add: suffix_space_iff)
    have 1: "strip (normalize_sql s) = normalize_sql s"
      using ne normalize_sql_hd[of s] normalize_sql_last_space[OF ne l]
      by (simp add: strip_id)
    have 2: "rstrip_chars '';'' (normalize_sql s) = normalize_sql s"
      using normalize_sql_last_semi[OF ne] by (simp add: rstrip_chars_id)
    show ?thesis
      unfolding normalize_sql_def[of "normalize_sql s"] lower_normalize_sql 1 2
      by (rule normalize_sql_sub_ws)
  qed
  with False show ?thesis by simp
qed

text \<open>
  The same call order keeps the answer of lesson 1.1, written with a blank before its
  semicolon, from comparing equal to the answer.
\<close>

lemma normalize_sql_blank_before_terminator:
  "normalize_sql ''SELECT campaign_name, bidding_strategy FROM campaigns ;'' \<noteq>
   normalize_sql (answer lesson_1_1)"
  by (simp add: str_defs lesson_1_1_def)

section \<open>Facts about the curriculum\<close>

lemmas lesson_defs =
  lesson_1_1_def lesson_1_2_def lesson_1_3_def lesson_1_4_def lesson_2_1_def lesson_2_2_def
  lesson_2_3_def lesson_3_1_def lesson_3_2_def lesson_3_3_def lesson_4_1_def lesson_4_2_def
  lesson_4_3_def

lemma lesson_ids:
  "lesson_id lesson_1_1 = ''1.1''" "lesson_id lesson_1_2 = ''1.2''"
  "lesson_id lesson_1_3 = ''1.3''" "lesson_id lesson_1_4 = ''1.4''"
  "lesson_id lesson_2_1 = ''2.1''" "lesson_id lesson_2_2 = ''2.2''"
  "lesson_id lesson_2_3 = ''2.3''" "lesson_id lesson_3_1 = ''3.1''"
  "lesson_id lesson_3_2 = ''3.2''" "lesson_id lesson_3_3 = ''3.3''"
  "lesson_id lesson_4_1 = ''4.1''" "lesson_id lesson_4_2 = ''4.2''"
  "lesson_id lesson_4_3 = ''4.3''"
  by (simp_all add: lesson_defs)

lemma phase_lessons:
  "lessons phase_1 = [lesson_1_1, lesson_1_2, lesson_1_3, lesson_1_4]"
  "lessons phase_2 = [lesson_2_1, lesson_2_2, lesson_2_3]"
  "lessons phase_3 = [lesson_3_1, lesson_3_2, lesson_3_3]"
  "lessons phase_4 = [lesson_4_1, lesson_4_2, lesson_4_3]"
  by (simp_all add: phase_1_def phase_2_def phase_3_def phase_4_def)

lemma lesson_pairs_eq:
  "lesson_pairs =
     [(lesson_1_1, phase_1), (lesson_1_2, phase_1), (lesson_1_3, phase_1), (lesson_1_4, phase_1),
      (lesson_2_1, phase_2), (lesson_2_2, phase_2), (lesson_2_3, phase_2),
      (lesson_3_1, phase_3), (lesson_3_2, phase_3), (lesson_3_3, phase_3),
      (lesson_4_1, phase_4), (lesson_4_2, phase_4), (lesson_4_3, phase_4)]"
  by (simp add: lesson_pairs_def CURRICULUM_def phase_lessons)

lemma all_lessons_eq:
  "map fst lesson_pairs =
     [lesson_1_1, lesson_1_2, lesson_1_3, lesson_1_4, lesson_2_1, lesson_2_2, lesson_2_3,
      lesson_3_1, lesson_3_2, lesson_3_3, lesson_4_1, lesson_4_2, lesson_4_3]"
  by (simp add: lesson_pairs_eq)

lemma all_lesson_ids:
  "map (\<lambda>(l, ph). lesson_id l) lesson_pairs =
     [''1.1'', ''1.2'', ''1.3'', ''1.4'', ''2.1'', ''2.2'', ''2.3'',
      ''3.1'', ''3.2'', ''3.3'', ''4.1'', ''4.2'', ''4.3'']"
  by (simp add: lesson_pairs_eq lesson_ids)

lemma get_lesson_by_id_1_1: "get_lesson_by_id ''1.1'' = Some (lesson_1_1, phase_1)"
  by (simp add: get_lesson_by_id_def lesson_pairs_eq lesson_ids)

lemma get_lesson_by_id_4_3: "get_lesson_by_id ''4.3'' = Some (lesson_4_3, phase_4)"
  by (simp add: get_lesson_by_id_def lesson_pairs_eq lesson_ids)

lemma get_lesson_by_id_9_9: "get_lesson_by_id ''9.9'' = None"
  by (simp add: get_lesson_by_id_def lesson_pairs_eq lesson_ids)

lemma get_next_lesson_id_4_3: "get_next_lesson_id ''4.3'' = None"
  by (simp add: get_next_lesson_id_def all_lesson_ids)

lemma get_lesson_by_id_Some:
  "get_lesson_by_id c = Some (l, ph) \<Longrightarrow> (l, ph) \<in> set lesson_pairs \<and> lesson_id l = c"
  unfolding get_lesson_by_id_def by (auto simp: find_Some_iff in_set_conv_nth)

lemma next_ids:
  "get_next_lesson_id ''1.1'' = Some ''1.2''" "get_next_lesson_id ''1.2'' = Some ''1.3''"
  "get_next_lesson_id ''1.3'' = Some ''1.4''" "get_next_lesson_id ''1.4'' = Some ''2.1''"
  "get_next_lesson_id ''2.1'' = Some ''2.2''" "get_next_lesson_id ''2.2'' = Some ''2.3''"
  "get_next_lesson_id ''2.3'' = Some ''3.1''" "get_next_lesson_id ''3.1'' = Some ''3.2''"
  "get_next_lesson_id ''3.2'' = Some ''3.3''" "get_next_lesson_id ''3.3'' = Some ''4.1''"
  "get_next_lesson_id ''4.1'' = Some ''4.2''" "get_next_lesson_id ''4.2'' = Some ''4.3''"
  "get_next_lesson_id ''4.3'' = None"
  by (simp_all add: get_next_lesson_id_def all_lesson_ids)

lemma next_lesson_differs:
  assumes "get_lesson_by_id c = Some (l, ph)"
  shows "get_next_lesson_id (lesson_id l) \<noteq> Some (lesson_id l)"
proof -
  from assms have "(l, ph) \<in> set lesson_pairs" by (simp add: get_lesson_by_id_Some)
  then have "lesson_id l \<in> set (map (\<lambda>(l, ph). lesson_id l) lesson_pairs)" by force
  then have "lesson_id l \<in> {''1.1'', ''1.2'', ''1.3'', ''1.4'', ''2.1'', ''2.2'', ''2.3'',
      ''3.1'', ''3.2'', ''3.3'', ''4.1'', ''4.2'', ''4.3''}"
    unfolding all_lesson_ids by simp
  then show ?thesis
    by (elim insertE emptyE) (simp_all add: next_ids)
qed

lemma next_lesson_in_curriculum:
  "get_next_lesson_id c = Some n \<Longrightarrow> n \<in> set (map (\<lambda>(l, ph). lesson_id l) lesson_pairs)"
proof -
  assume a: "get_next_lesson_id c = Some n"
  define ids where "ids = map (\<lambda>(l, ph). lesson_id l) lesson_pairs"
  from a obtain idx where "idx + 1 < length ids" and "n = ids ! (idx + 1)"
    unfolding get_next_lesson_id_def Let_def ids_def[symmetric]
    by (auto split: option.splits if_splits)
  then have "n \<in> set ids" by (metis nth_mem)
  then show ?thesis by (simp only: ids_def)
qed

lemma get_lesson_by_id_None:
  "get_lesson_by_id n = None \<longleftrightarrow> n \<notin> set (map (\<lambda>(l, ph). lesson_id l) lesson_pairs)"
  unfolding get_lesson_by_id_def by (auto simp: find_None_iff)

lemma next_lesson_resolves:
  "get_next_lesson_id c = Some n \<Longrightarrow> get_lesson_by_id n \<noteq> None"
  using next_lesson_in_curriculum[of c n] by (simp only: get_lesson_by_id_None not_not)

section \<open>The curriculum data (C5)\<close>

text \<open>
  C5, as stated, fails: the solution steps of lessons 4.2 and 4.3 are not non-decreasing in
  length (126, 131, 127, 232 and 179, 170, 446 characters), because an intermediate step
  abbreviates the common table expression to \<open>(...)\<close>.
\<close>

theorem solution_steps_length_counterexample:
  "lesson_4_2 \<in> set (map fst lesson_pairs) \<and>
   map length (solution_steps lesson_4_2) = [126, 131, 127, 232] \<and>
   \<not> sorted (map length (solution_steps lesson_4_2)) \<and>
   lesson_4_3 \<in> set (map fst lesson_pairs) \<and>
   map length (solution_steps lesson_4_3) = [179, 170, 446] \<and>
   \<not> sorted (map length (solution_steps lesson_4_3))"
  unfolding all_lessons_eq
  by (simp add: lesson_4_2_def lesson_4_3_def)

text \<open>
  C5, amended: every lesson of the curriculum has at least one solution step and its last
  step is textually equal to its answer; the steps are non-decreasing in length in every
  lesson other than 4.2 and 4.3.
\<close>

theorem curriculum_solution_steps:
  "\<forall>l \<in> set (map fst lesson_pairs).
     1 \<le> length (solution_steps l) \<and> last (solution_steps l) = answer l \<and>
     (lesson_id l \<notin> {''4.2'', ''4.3''} \<longrightarrow> sorted (map length (solution_steps l)))"
  unfolding all_lessons_eq
  by (simp add: lesson_defs)

text \<open>The amended C5 at lesson 1.1.\<close>

theorem curriculum_solution_steps_witness:
  "lesson_1_1 \<in> set (map fst lesson_pairs) \<and>
   lesson_id lesson_1_1 \<notin> {''4.2'', ''4.3''} \<and>
   1 \<le> length (solution_steps lesson_1_1) \<and>
   last (solution_steps lesson_1_1) = answer lesson_1_1 \<and>
   sorted (map length (solution_steps lesson_1_1))"
proof -
  have m: "lesson_1_1 \<in> set (map fst lesson_pairs)"
    unfolding all_lessons_eq by simp
  have i: "lesson_id lesson_1_1 \<notin> {''4.2'', ''4.3''}"
    by (simp add: lesson_1_1_def)
  from curriculum_solution_steps m i show ?thesis by blast
qed

section \<open>The effect of each command\<close>

lemma emit_fields:
  "progress (emit ps s) = progress s" "current_hint (emit ps s) = current_hint s"
  "current_step (emit ps s) = current_step s" "last_query (emit ps s) = last_query s"
  "progress_file (emit ps s) = progress_file s" "saves (emit ps s) = saves s"
  "db (emit ps s) = db s" "out (emit ps s) = out s @ ps"
  by (simp_all add: emit_def)

lemma save_progress_fields:
  "progress (save_progress p s) = progress s" "current_hint (save_progress p s) = current_hint s"
  "current_step (save_progress p s) = current_step s"
  "last_query (save_progress p s) = last_query s"
  "progress_file (save_progress p s) = Some p" "saves (save_progress p s) = saves s @ [p]"
  "db (save_progress p s) = db s" "out (save_progress p s) = out s"
  by (simp_all add: save_progress_def)

lemma show_current_lesson_fields:
  "progress (show_current_lesson s) = progress s"
  "last_query (show_current_lesson s) = last_query s"
  "progress_file (show_current_lesson s) = progress_file s"
  "saves (show_current_lesson s) = saves s"
  "db (show_current_lesson s) = db s"
  by (simp_all add: show_current_lesson_def emit_def split: option.splits)

lemma show_current_lesson_cursors:
  "current_hint (show_current_lesson s) =
     (if get_lesson_by_id (current_lesson (progress s)) = None then current_hint s else 0)"
  "current_step (show_current_lesson s) =
     (if get_lesson_by_id (current_lesson (progress s)) = None then current_step s else 0)"
  by (simp_all add: show_current_lesson_def emit_def split: option.splits)

lemma cmd_run_fields:
  "progress (cmd_run sq lesson cmd s) = progress s"
  "current_hint (cmd_run sq lesson cmd s) = current_hint s"
  "current_step (cmd_run sq lesson cmd s) = current_step s"
  "progress_file (cmd_run sq lesson cmd s) = progress_file s"
  "saves (cmd_run sq lesson cmd s) = saves s"
  "last_query (cmd_run sq lesson cmd s) = Some (strip (drop 4 cmd))"
  by (simp_all add: cmd_run_def execute_sql_def emit_def Let_def
      split: prod.splits sum.splits option.splits)

lemma cmd_other_fields:
  "progress (cmd_other sq cmd cl s) = progress s"
  "current_hint (cmd_other sq cmd cl s) = current_hint s"
  "current_step (cmd_other sq cmd cl s) = current_step s"
  "progress_file (cmd_other sq cmd cl s) = progress_file s"
  "saves (cmd_other sq cmd cl s) = saves s"
  by (simp_all add: cmd_other_def execute_sql_def emit_def Let_def
      split: prod.splits sum.splits option.splits)

lemma cmd_hint_cases:
  "cmd_hint lesson s =
     Inr (case lesson of
            None \<Rightarrow> s
          | Some (l, ph) \<Rightarrow>
              if current_hint s < length (hints l)
              then (emit [HintBox (current_hint s + 1) (length (hints l))
                            (hints l ! current_hint s)] s)\<lparr>current_hint := current_hint s + 1\<rparr>
              else emit [Print ''No more hints! Type 'answer' to see the solution.''] s)"
  by (simp add: cmd_hint_def py_index_def split: option.splits)

lemma cmd_next_cases:
  "cmd_next lesson s =
     Inr (case lesson of
            None \<Rightarrow> s
          | Some (l, ph) \<Rightarrow>
              if current_step s < length (solution_steps l)
              then (emit [NextStepBox (current_step s + 1) (length (solution_steps l))
                            (solution_steps l ! current_step s)] s)
                     \<lparr>current_step := current_step s + 1\<rparr>
              else emit [Print ''No more steps! Here's the full solution:'',
                         AnswerBox (answer l)] s)"
  by (simp add: cmd_next_def py_index_def split: option.splits)

lemma cmd_hint_fields:
  assumes "cmd_hint lesson s = Inr s'"
  shows "progress s' = progress s" "current_step s' = current_step s"
    "progress_file s' = progress_file s" "saves s' = saves s"
    "current_hint s \<le> current_hint s'"
    "lesson = None \<Longrightarrow> s' = s"
  using assms unfolding cmd_hint_cases
  by (auto simp: emit_def split: option.splits if_splits)

lemma cmd_next_fields:
  assumes "cmd_next lesson s = Inr s'"
  shows "progress s' = progress s" "current_hint s' = current_hint s"
    "progress_file s' = progress_file s" "saves s' = saves s"
    "current_step s \<le> current_step s'"
    "lesson = None \<Longrightarrow> s' = s"
  using assms unfolding cmd_next_cases
  by (auto simp: emit_def split: option.splits if_splits)

lemma cmd_answer_fields:
  "progress (cmd_answer lesson s) = progress s"
  "current_hint (cmd_answer lesson s) = current_hint s"
  "current_step (cmd_answer lesson s) = current_step s"
  "progress_file (cmd_answer lesson s) = progress_file s"
  "saves (cmd_answer lesson s) = saves s"
  by (simp_all add: cmd_answer_def emit_def split: option.splits)

lemma cmd_explain_fields:
  "progress (cmd_explain s) = progress s"
  "current_hint (cmd_explain s) = current_hint s"
  "current_step (cmd_explain s) = current_step s"
  "progress_file (cmd_explain s) = progress_file s"
  "saves (cmd_explain s) = saves s"
  by (simp_all add: cmd_explain_def emit_def)

lemma cmd_progress_fields:
  "progress (cmd_progress s) = progress s"
  "current_hint (cmd_progress s) = current_hint s"
  "current_step (cmd_progress s) = current_step s"
  "progress_file (cmd_progress s) = progress_file s"
  "saves (cmd_progress s) = saves s"
  by (simp_all add: cmd_progress_def emit_def)

lemma cmd_reset_fields:
  "progress (cmd_reset s) = progress s"
  "current_hint (cmd_reset s) = 0"
  "current_step (cmd_reset s) = 0"
  "progress_file (cmd_reset s) = progress_file s"
  "saves (cmd_reset s) = saves s"
  by (simp_all add: cmd_reset_def emit_def)

lemma cmd_clear_fields:
  "progress (cmd_clear s) = progress s"
  "progress_file (cmd_clear s) = progress_file s"
  "saves (cmd_clear s) = saves s"
  "current_hint (cmd_clear s) =
     (if get_lesson_by_id (current_lesson (progress s)) = None then current_hint s else 0)"
  "current_step (cmd_clear s) =
     (if get_lesson_by_id (current_lesson (progress s)) = None then current_step s else 0)"
  by (simp_all add: cmd_clear_def show_current_lesson_fields show_current_lesson_cursors
      emit_fields)

lemma cmd_quit_fields:
  "progress (cmd_quit s) = progress s"
  "current_hint (cmd_quit s) = current_hint s"
  "current_step (cmd_quit s) = current_step s"
  "progress_file (cmd_quit s) = Some (progress s)"
  "saves (cmd_quit s) = saves s @ [progress s]"
  by (simp_all add: cmd_quit_def emit_fields save_progress_fields)

lemma cmd_lesson_cases:
  "cmd_lesson cmd s =
     (let lid = strip (drop 7 cmd) in
      if get_lesson_by_id lid = None
      then emit [ErrorBox (''Lesson '' @ [CHR 0x27] @ lid @ [CHR 0x27] @
                           '' not found. Use format like '1.2' or '3.1'' @ [CHR 0x27])] s
      else show_current_lesson (emit [ClearScreen, Banner]
             (save_progress ((progress s)\<lparr>current_lesson := lid\<rparr>)
                (s\<lparr>progress := (progress s)\<lparr>current_lesson := lid\<rparr>\<rparr>))))"
  by (simp add: cmd_lesson_def Let_def split: option.splits)

lemma cmd_lesson_fields:
  "hint_counts (progress (cmd_lesson cmd s)) = hint_counts (progress s)"
  "completed_lessons (progress (cmd_lesson cmd s)) = completed_lessons (progress s)"
  "saves (cmd_lesson cmd s) = saves s \<or> saves (cmd_lesson cmd s) = saves s @ [progress (cmd_lesson cmd s)]"
  "get_lesson_by_id (strip (drop 7 cmd)) = None \<Longrightarrow>
     progress (cmd_lesson cmd s) = progress s \<and> current_hint (cmd_lesson cmd s) = current_hint s
     \<and> current_step (cmd_lesson cmd s) = current_step s"
  "get_lesson_by_id (strip (drop 7 cmd)) \<noteq> None \<Longrightarrow>
     current_lesson (progress (cmd_lesson cmd s)) = strip (drop 7 cmd) \<and>
     current_hint (cmd_lesson cmd s) = 0 \<and> current_step (cmd_lesson cmd s) = 0"
  unfolding cmd_lesson_cases Let_def
  by (auto simp: show_current_lesson_fields show_current_lesson_cursors emit_fields
      save_progress_fields)

lemma truthy_Some: "truthy x \<Longrightarrow> x = Some (the x) \<and> the x \<noteq> []"
  by (cases x) (simp_all add: truthy_def)

lemma cmd_skip_None: "cmd_skip None s = s"
  by (simp add: cmd_skip_def)

lemma cmd_skip_fields:
  "hint_counts (progress (cmd_skip lesson s)) = hint_counts (progress s)"
  "saves (cmd_skip lesson s) = saves s \<or>
   saves (cmd_skip lesson s) = saves s @ [progress (cmd_skip lesson s)]"
  "current_step (cmd_skip lesson s) = current_step s \<or> current_step (cmd_skip lesson s) = 0"
  "current_hint (cmd_skip lesson s) = current_hint s \<or> current_hint (cmd_skip lesson s) = 0"
  unfolding cmd_skip_def Let_def
  by (auto simp: show_current_lesson_fields show_current_lesson_cursors emit_fields
      save_progress_fields split: option.splits)

lemma cmd_skip_lesson:
  assumes "get_lesson_by_id (current_lesson (progress s)) = Some (l, ph)"
  shows "(current_lesson (progress (cmd_skip (Some (l, ph)) s)) \<noteq> current_lesson (progress s)
           \<longrightarrow> current_hint (cmd_skip (Some (l, ph)) s) = 0 \<and>
                current_step (cmd_skip (Some (l, ph)) s) = 0 \<and>
                get_lesson_by_id (current_lesson (progress (cmd_skip (Some (l, ph)) s))) \<noteq> None)
       \<and> (current_lesson (progress (cmd_skip (Some (l, ph)) s)) = current_lesson (progress s)
           \<longrightarrow> current_hint (cmd_skip (Some (l, ph)) s) = current_hint s \<and>
                current_step (cmd_skip (Some (l, ph)) s) = current_step s)"
proof (cases "truthy (get_next_lesson_id (lesson_id l))")
  case True
  then obtain n where n: "get_next_lesson_id (lesson_id l) = Some n"
    using truthy_Some by metis
  have id: "lesson_id l = current_lesson (progress s)"
    using assms by (simp add: get_lesson_by_id_Some)
  have ne: "n \<noteq> current_lesson (progress s)"
    using next_lesson_differs[OF assms] n id by simp
  have res: "get_lesson_by_id n \<noteq> None" using n by (rule next_lesson_resolves)
  show ?thesis
    using True n ne res unfolding cmd_skip_def Let_def
    by (auto simp: show_current_lesson_fields show_current_lesson_cursors emit_fields
        save_progress_fields)
next
  case False
  then show ?thesis unfolding cmd_skip_def Let_def
    by (simp add: emit_fields)
qed

section \<open>The branch taken by an input line\<close>

lemma lower_Nil_iff: "lower xs = [] \<longleftrightarrow> xs = []"
  by (simp add: lower_def)

lemma startswith_Nil: "startswith [] (c # cs) = False"
  by (simp add: startswith_def)

lemma hc_blank: "strip cmd0 = [] \<Longrightarrow> handle_command sq s cmd0 = Inr (True, s)"
  by (simp add: handle_command_def)

lemma hc_run:
  "startswith (lower (strip cmd0)) ''run '' \<Longrightarrow>
   handle_command sq s cmd0 =
     Inr (True, cmd_run sq (get_lesson_by_id (current_lesson (progress s))) (strip cmd0) s)"
proof -
  assume a: "startswith (lower (strip cmd0)) ''run ''"
  then have "lower (strip cmd0) \<noteq> []" using startswith_Nil by metis
  then have "strip cmd0 \<noteq> []" by (simp add: lower_Nil_iff)
  with a show ?thesis by (simp add: handle_command_def Let_def)
qed

lemma lower_eq_nonempty: "lower xs = c # cs \<Longrightarrow> xs \<noteq> []"
  by (auto simp: lower_def)

lemma hc_hint:
  assumes "lower (strip cmd0) = ''hint''"
  shows "handle_command sq s cmd0 = map_sum id (Pair True) (cmd_hint (get_lesson_by_id (current_lesson (progress s))) s)"
proof -
  have "strip cmd0 \<noteq> []" using assms by (rule lower_eq_nonempty)
  then show ?thesis using assms
    by (simp add: handle_command_def Let_def startswith_def)
qed

lemma hc_stuck:
  assumes "lower (strip cmd0) = ''stuck''"
  shows "handle_command sq s cmd0 = map_sum id (Pair True) (cmd_hint (get_lesson_by_id (current_lesson (progress s))) s)"
proof -
  have "strip cmd0 \<noteq> []" using assms by (rule lower_eq_nonempty)
  then show ?thesis using assms
    by (simp add: handle_command_def Let_def startswith_def)
qed

lemma hc_help_me:
  assumes "lower (strip cmd0) = ''help me''"
  shows "handle_command sq s cmd0 = map_sum id (Pair True) (cmd_hint (get_lesson_by_id (current_lesson (progress s))) s)"
proof -
  have "strip cmd0 \<noteq> []" using assms by (rule lower_eq_nonempty)
  then show ?thesis using assms
    by (simp add: handle_command_def Let_def startswith_def)
qed

lemma hc_next:
  assumes "lower (strip cmd0) = ''next''"
  shows "handle_command sq s cmd0 = map_sum id (Pair True) (cmd_next (get_lesson_by_id (current_lesson (progress s))) s)"
proof -
  have "strip cmd0 \<noteq> []" using assms by (rule lower_eq_nonempty)
  then show ?thesis using assms
    by (simp add: handle_command_def Let_def startswith_def)
qed

lemma hc_answer:
  assumes "lower (strip cmd0) = ''answer''"
  shows "handle_command sq s cmd0 = Inr (True, cmd_answer (get_lesson_by_id (current_lesson (progress s))) s)"
proof -
  have "strip cmd0 \<noteq> []" using assms by (rule lower_eq_nonempty)
  then show ?thesis using assms
    by (simp add: handle_command_def Let_def startswith_def)
qed

lemma hc_solution:
  assumes "lower (strip cmd0) = ''solution''"
  shows "handle_command sq s cmd0 = Inr (True, cmd_answer (get_lesson_by_id (current_lesson (progress s))) s)"
proof -
  have "strip cmd0 \<noteq> []" using assms by (rule lower_eq_nonempty)
  then show ?thesis using assms
    by (simp add: handle_command_def Let_def startswith_def)
qed

lemma hc_explain:
  assumes "lower (strip cmd0) = ''explain''"
  shows "handle_command sq s cmd0 = Inr (True, cmd_explain s)"
proof -
  have "strip cmd0 \<noteq> []" using assms by (rule lower_eq_nonempty)
  then show ?thesis using assms
    by (simp add: handle_command_def Let_def startswith_def)
qed

lemma hc_schema:
  assumes "lower (strip cmd0) = ''schema''"
  shows "handle_command sq s cmd0 = Inr (True, emit [Schema] s)"
proof -
  have "strip cmd0 \<noteq> []" using assms by (rule lower_eq_nonempty)
  then show ?thesis using assms
    by (simp add: handle_command_def Let_def startswith_def)
qed

lemma hc_tables:
  assumes "lower (strip cmd0) = ''tables''"
  shows "handle_command sq s cmd0 = Inr (True, emit [TablesList] s)"
proof -
  have "strip cmd0 \<noteq> []" using assms by (rule lower_eq_nonempty)
  then show ?thesis using assms
    by (simp add: handle_command_def Let_def startswith_def)
qed

lemma hc_skip:
  assumes "lower (strip cmd0) = ''skip''"
  shows "handle_command sq s cmd0 = Inr (True, cmd_skip (get_lesson_by_id (current_lesson (progress s))) s)"
proof -
  have "strip cmd0 \<noteq> []" using assms by (rule lower_eq_nonempty)
  then show ?thesis using assms
    by (simp add: handle_command_def Let_def startswith_def)
qed

lemma hc_progress:
  assumes "lower (strip cmd0) = ''progress''"
  shows "handle_command sq s cmd0 = Inr (True, cmd_progress s)"
proof -
  have "strip cmd0 \<noteq> []" using assms by (rule lower_eq_nonempty)
  then show ?thesis using assms
    by (simp add: handle_command_def Let_def startswith_def)
qed

lemma hc_reset:
  assumes "lower (strip cmd0) = ''reset''"
  shows "handle_command sq s cmd0 = Inr (True, cmd_reset s)"
proof -
  have "strip cmd0 \<noteq> []" using assms by (rule lower_eq_nonempty)
  then show ?thesis using assms
    by (simp add: handle_command_def Let_def startswith_def)
qed

lemma hc_help:
  assumes "lower (strip cmd0) = ''help''"
  shows "handle_command sq s cmd0 = Inr (True, emit [HelpText] s)"
proof -
  have "strip cmd0 \<noteq> []" using assms by (rule lower_eq_nonempty)
  then show ?thesis using assms
    by (simp add: handle_command_def Let_def startswith_def)
qed

lemma hc_qmark:
  assumes "lower (strip cmd0) = ''?''"
  shows "handle_command sq s cmd0 = Inr (True, emit [HelpText] s)"
proof -
  have "strip cmd0 \<noteq> []" using assms by (rule lower_eq_nonempty)
  then show ?thesis using assms
    by (simp add: handle_command_def Let_def startswith_def)
qed

lemma hc_clear:
  assumes "lower (strip cmd0) = ''clear''"
  shows "handle_command sq s cmd0 = Inr (True, cmd_clear s)"
proof -
  have "strip cmd0 \<noteq> []" using assms by (rule lower_eq_nonempty)
  then show ?thesis using assms
    by (simp add: handle_command_def Let_def startswith_def)
qed

lemma hc_cls:
  assumes "lower (strip cmd0) = ''cls''"
  shows "handle_command sq s cmd0 = Inr (True, cmd_clear s)"
proof -
  have "strip cmd0 \<noteq> []" using assms by (rule lower_eq_nonempty)
  then show ?thesis using assms
    by (simp add: handle_command_def Let_def startswith_def)
qed

lemma hc_quit:
  assumes "lower (strip cmd0) = ''quit''"
  shows "handle_command sq s cmd0 = Inr (False, cmd_quit s)"
proof -
  have "strip cmd0 \<noteq> []" using assms by (rule lower_eq_nonempty)
  then show ?thesis using assms
    by (simp add: handle_command_def Let_def startswith_def)
qed

lemma hc_exit:
  assumes "lower (strip cmd0) = ''exit''"
  shows "handle_command sq s cmd0 = Inr (False, cmd_quit s)"
proof -
  have "strip cmd0 \<noteq> []" using assms by (rule lower_eq_nonempty)
  then show ?thesis using assms
    by (simp add: handle_command_def Let_def startswith_def)
qed

lemma hc_q:
  assumes "lower (strip cmd0) = ''q''"
  shows "handle_command sq s cmd0 = Inr (False, cmd_quit s)"
proof -
  have "strip cmd0 \<noteq> []" using assms by (rule lower_eq_nonempty)
  then show ?thesis using assms
    by (simp add: handle_command_def Let_def startswith_def)
qed

lemma hc_lesson:
  "startswith (lower (strip cmd0)) ''lesson '' \<Longrightarrow>
   handle_command sq s cmd0 = Inr (True, cmd_lesson (strip cmd0) s)"
proof -
  assume a: "startswith (lower (strip cmd0)) ''lesson ''"
  then have "lower (strip cmd0) \<noteq> []" using startswith_Nil by metis
  then have n: "strip cmd0 \<noteq> []" by (simp add: lower_Nil_iff)
  from a obtain r where r: "lower (strip cmd0) = ''lesson '' @ r"
    by (auto simp: startswith_def prefix_def)
  show ?thesis using n a unfolding handle_command_def Let_def r
    by (simp add: startswith_def)
qed

lemma hc_other:
  "strip cmd0 \<noteq> [] \<Longrightarrow> \<not> startswith (lower (strip cmd0)) ''run '' \<Longrightarrow>
   \<not> is_builtin (lower (strip cmd0)) \<Longrightarrow>
   handle_command sq s cmd0 = Inr (True, cmd_other sq (strip cmd0) (lower (strip cmd0)) s)"
  by (simp add: handle_command_def Let_def is_builtin_def)

lemma handle_command_cases [case_names c_blank c_run c_hint c_next c_answer c_explain
    c_schema c_tables c_skip c_lesson c_progress c_reset c_help c_clear c_quit c_other]:
  fixes cmd0 :: string and s :: "'db coach" and sq :: "'db sqlite"
  obtains
    "strip cmd0 = []" "handle_command sq s cmd0 = Inr (True, s)"
  | "startswith (lower (strip cmd0)) ''run ''"
    "handle_command sq s cmd0 =
       Inr (True, cmd_run sq (get_lesson_by_id (current_lesson (progress s))) (strip cmd0) s)"
  | "lower (strip cmd0) \<in> set [''hint'', ''stuck'', ''help me'']"
    "handle_command sq s cmd0 =
       map_sum id (Pair True) (cmd_hint (get_lesson_by_id (current_lesson (progress s))) s)"
  | "lower (strip cmd0) = ''next''"
    "handle_command sq s cmd0 =
       map_sum id (Pair True) (cmd_next (get_lesson_by_id (current_lesson (progress s))) s)"
  | "lower (strip cmd0) \<in> set [''answer'', ''solution'']"
    "handle_command sq s cmd0 =
       Inr (True, cmd_answer (get_lesson_by_id (current_lesson (progress s))) s)"
  | "lower (strip cmd0) = ''explain''" "handle_command sq s cmd0 = Inr (True, cmd_explain s)"
  | "lower (strip cmd0) = ''schema''" "handle_command sq s cmd0 = Inr (True, emit [Schema] s)"
  | "lower (strip cmd0) = ''tables''"
    "handle_command sq s cmd0 = Inr (True, emit [TablesList] s)"
  | "lower (strip cmd0) = ''skip''"
    "handle_command sq s cmd0 =
       Inr (True, cmd_skip (get_lesson_by_id (current_lesson (progress s))) s)"
  | "startswith (lower (strip cmd0)) ''lesson ''"
    "\<not> startswith (lower (strip cmd0)) ''run ''"
    "handle_command sq s cmd0 = Inr (True, cmd_lesson (strip cmd0) s)"
  | "lower (strip cmd0) = ''progress''" "handle_command sq s cmd0 = Inr (True, cmd_progress s)"
  | "lower (strip cmd0) = ''reset''" "handle_command sq s cmd0 = Inr (True, cmd_reset s)"
  | "lower (strip cmd0) \<in> set [''help'', ''?'']"
    "handle_command sq s cmd0 = Inr (True, emit [HelpText] s)"
  | "lower (strip cmd0) \<in> set [''clear'', ''cls'']"
    "handle_command sq s cmd0 = Inr (True, cmd_clear s)"
  | "lower (strip cmd0) \<in> set [''quit'', ''exit'', ''q'']"
    "handle_command sq s cmd0 = Inr (False, cmd_quit s)"
  | "strip cmd0 \<noteq> []" "\<not> startswith (lower (strip cmd0)) ''run ''"
    "\<not> is_builtin (lower (strip cmd0))"
    "handle_command sq s cmd0 =
       Inr (True, cmd_other sq (strip cmd0) (lower (strip cmd0)) s)"
proof (cases "strip cmd0 = []")
  case True
  with that(1) show ?thesis by (simp add: hc_blank)
next
  case ne: False
  show ?thesis
  proof (cases "startswith (lower (strip cmd0)) ''run ''")
    case True
    with that(2) show ?thesis by (simp add: hc_run)
  next
    case nr: False
    show ?thesis
    proof (cases "is_builtin (lower (strip cmd0))")
      case False
      with ne nr that(16) show ?thesis by (simp add: hc_other)
    next
      case True
      then consider
          "lower (strip cmd0) = ''hint''" | "lower (strip cmd0) = ''stuck''"
        | "lower (strip cmd0) = ''help me''" | "lower (strip cmd0) = ''next''"
        | "lower (strip cmd0) = ''answer''" | "lower (strip cmd0) = ''solution''"
        | "lower (strip cmd0) = ''explain''" | "lower (strip cmd0) = ''schema''"
        | "lower (strip cmd0) = ''tables''" | "lower (strip cmd0) = ''skip''"
        | "lower (strip cmd0) = ''progress''" | "lower (strip cmd0) = ''reset''"
        | "lower (strip cmd0) = ''help''" | "lower (strip cmd0) = ''?''"
        | "lower (strip cmd0) = ''clear''" | "lower (strip cmd0) = ''cls''"
        | "lower (strip cmd0) = ''quit''" | "lower (strip cmd0) = ''exit''"
        | "lower (strip cmd0) = ''q''" | "startswith (lower (strip cmd0)) ''lesson ''"
        unfolding is_builtin_def list.set insert_iff empty_iff by blast
      then show ?thesis
      proof cases
        case 1 with that(3) show ?thesis by (simp add: hc_hint)
      next
        case 2 with that(3) show ?thesis by (simp add: hc_stuck)
      next
        case 3 with that(3) show ?thesis by (simp add: hc_help_me)
      next
        case 4 with that(4) show ?thesis by (simp add: hc_next)
      next
        case 5 with that(5) show ?thesis by (simp add: hc_answer)
      next
        case 6 with that(5) show ?thesis by (simp add: hc_solution)
      next
        case 7 with that(6) show ?thesis by (simp add: hc_explain)
      next
        case 8 with that(7) show ?thesis by (simp add: hc_schema)
      next
        case 9 with that(8) show ?thesis by (simp add: hc_tables)
      next
        case 10 with that(9) show ?thesis by (simp add: hc_skip)
      next
        case 11 with that(11) show ?thesis by (simp add: hc_progress)
      next
        case 12 with that(12) show ?thesis by (simp add: hc_reset)
      next
        case 13 with that(13) show ?thesis by (simp add: hc_help)
      next
        case 14 with that(13) show ?thesis by (simp add: hc_qmark)
      next
        case 15 with that(14) show ?thesis by (simp add: hc_clear)
      next
        case 16 with that(14) show ?thesis by (simp add: hc_cls)
      next
        case 17 with that(15) show ?thesis by (simp add: hc_quit)
      next
        case 18 with that(15) show ?thesis by (simp add: hc_exit)
      next
        case 19 with that(15) show ?thesis by (simp add: hc_q)
      next
        case 20 with nr that(10) show ?thesis by (simp add: hc_lesson)
      qed
    qed
  qed
qed

lemma handle_command_total: "\<exists>b s'. handle_command sq s cmd = Inr (b, s')"
  by (cases rule: handle_command_cases[of cmd sq s]) (auto simp: cmd_hint_cases cmd_next_cases)

section \<open>Concrete states\<close>

lemma fresh_eq:
  "fresh =
     \<lparr>progress = \<lparr>current_lesson = ''1.1'', completed_lessons = [], hint_counts = [],
                   started_at = ''2026-01-01T09:00:00''\<rparr>,
      current_hint = 0, current_step = 0, last_query = None, progress_file = None,
      saves = [], db = (),
      out = [ClearScreen, Banner, Welcome, ProgressBar 0 get_total_lessons,
             LessonView phase_1 lesson_1_1]\<rparr>"
  by (simp add: fresh_def entry_state_def init_def load_progress_def emit_def show_current_lesson_def
      get_lesson_by_id_1_1)

lemma fresh_lesson: "get_lesson_by_id (current_lesson (progress fresh)) = Some (lesson_1_1, phase_1)"
  by (simp add: fresh_eq get_lesson_by_id_1_1)

lemma hints_1_1:
  "hints lesson_1_1 = [''You need SELECT and FROM - two keywords'',
     ''The columns you want are: campaign_name, bidding_strategy'',
     ''The table is: campaigns'']"
  by (simp add: lesson_1_1_def)

lemma fresh_cursors: "current_hint fresh = 0" "current_step fresh = 0"
  by (simp_all add: fresh_eq)

lemma fresh_hint: "handle_command sq fresh ''hint'' = Inr (True, hinted)"
proof -
  have "lower (strip ''hint'') = ''hint''" by (simp add: str_defs)
  from hc_hint[OF this, of sq fresh]
  have "handle_command sq fresh ''hint'' =
          map_sum id (Pair True) (cmd_hint (Some (lesson_1_1, phase_1)) fresh)"
    by (simp only: fresh_lesson)
  moreover have "cmd_hint (Some (lesson_1_1, phase_1)) fresh = Inr hinted"
    by (simp add: cmd_hint_cases hints_1_1 hinted_def fresh_cursors eval_nat_numeral)
  ultimately show ?thesis by simp
qed

lemma state_after_hint:
  "state_after sq [''hint''] (entry_state None ''2026-01-01T09:00:00'' ()) = Some hinted"
  using fresh_hint[of sq] by (simp add: fresh_def)

lemma hinted_fields:
  "current_hint hinted = 1" "progress hinted = progress fresh"
  "get_lesson_by_id (current_lesson (progress hinted)) = Some (lesson_1_1, phase_1)"
  by (simp_all add: hinted_def emit_def fresh_lesson)

section \<open>hint_counts is never written (C10)\<close>

lemma map_sum_Inr_conv:
  "map_sum id (Pair True) r = Inr (b, s') \<longleftrightarrow> b \<and> r = Inr s'"
  by (cases r) auto

lemma hint_counts_kept_handle_command:
  assumes "handle_command sq s cmd = Inr (b, s')" and "hint_counts_kept h s"
  shows "hint_counts_kept h s'"
proof (cases rule: handle_command_cases[of cmd sq s])
  case c_blank
  with assms show ?thesis by simp
next
  case c_run
  with assms show ?thesis by (auto simp: hint_counts_kept_def cmd_run_fields)
next
  case c_hint
  with assms have "cmd_hint (get_lesson_by_id (current_lesson (progress s))) s = Inr s'"
    by (simp add: map_sum_Inr_conv)
  from cmd_hint_fields(1,4)[OF this] assms(2) show ?thesis
    by (simp add: hint_counts_kept_def)
next
  case c_next
  with assms have "cmd_next (get_lesson_by_id (current_lesson (progress s))) s = Inr s'"
    by (simp add: map_sum_Inr_conv)
  from cmd_next_fields(1,4)[OF this] assms(2) show ?thesis
    by (simp add: hint_counts_kept_def)
next
  case c_answer
  with assms show ?thesis by (auto simp: hint_counts_kept_def cmd_answer_fields)
next
  case c_explain
  with assms show ?thesis by (auto simp: hint_counts_kept_def cmd_explain_fields)
next
  case c_schema
  with assms show ?thesis by (auto simp: hint_counts_kept_def emit_fields)
next
  case c_tables
  with assms show ?thesis by (auto simp: hint_counts_kept_def emit_fields)
next
  case c_skip
  with assms have e: "s' = cmd_skip (get_lesson_by_id (current_lesson (progress s))) s" by simp
  show ?thesis
    using assms(2) cmd_skip_fields(1,2)[of "get_lesson_by_id (current_lesson (progress s))" s]
    unfolding e hint_counts_kept_def by auto
next
  case c_lesson
  with assms have e: "s' = cmd_lesson (strip cmd) s" by simp
  show ?thesis
    using assms(2) cmd_lesson_fields(1,3)[of "strip cmd" s]
    unfolding e hint_counts_kept_def by auto
next
  case c_progress
  with assms show ?thesis by (auto simp: hint_counts_kept_def cmd_progress_fields)
next
  case c_reset
  with assms show ?thesis by (auto simp: hint_counts_kept_def cmd_reset_fields)
next
  case c_help
  with assms show ?thesis by (auto simp: hint_counts_kept_def emit_fields)
next
  case c_clear
  with assms show ?thesis by (auto simp: hint_counts_kept_def cmd_clear_fields)
next
  case c_quit
  with assms show ?thesis by (auto simp: hint_counts_kept_def cmd_quit_fields)
next
  case c_other
  with assms show ?thesis by (auto simp: hint_counts_kept_def cmd_other_fields)
qed

lemma hint_counts_kept_main_loop:
  "hint_counts_kept h s \<Longrightarrow> \<exists>s'. main_loop sq inputs s = Inr s' \<and> hint_counts_kept h s'"
proof (induction inputs arbitrary: s)
  case Nil
  then show ?case by simp
next
  case (Cons i inputs)
  show ?case
  proof (cases i)
    case (Line cmd)
    obtain b t where t: "handle_command sq s cmd = Inr (b, t)"
      using handle_command_total by blast
    then have k: "hint_counts_kept h t"
      using Cons.prems by (rule hint_counts_kept_handle_command)
    show ?thesis
    proof (cases b)
      case True
      with Line t Cons.IH[OF k] show ?thesis by simp
    next
      case False
      with Line t k show ?thesis by simp
    qed
  next
    case KeyboardInterrupt
    with Cons.prems show ?thesis
      by (simp add: hint_counts_kept_def save_progress_fields emit_fields)
  next
    case EOFError
    with Cons.prems show ?thesis by simp
  qed
qed

text \<open>
  C10: no operation writes to \<open>hint_counts\<close>. For every progress file, clock, database
  and sequence of inputs, \<open>run\<close> returns, and \<open>hint_counts\<close> in memory and in every
  dictionary that \<open>save_progress\<close> has written is the mapping loaded at startup, which is
  empty on a first run.
\<close>

theorem hint_counts_never_written:
  "\<exists>s'. run sq inputs (init f now d) = Inr s' \<and>
        hint_counts (progress s') = hint_counts (load_progress f now) \<and>
        list_all (\<lambda>p. hint_counts p = hint_counts (load_progress f now)) (saves s') \<and>
        (f = None \<longrightarrow> hint_counts (load_progress f now) = [])"
proof -
  have "hint_counts_kept (hint_counts (load_progress f now))
          (show_current_lesson (emit [ClearScreen, Banner, Welcome] (init f now d)))"
    by (simp add: hint_counts_kept_def show_current_lesson_fields emit_fields init_def)
  from hint_counts_kept_main_loop[OF this, of sq inputs]
  show ?thesis
    by (auto simp: run_def hint_counts_kept_def load_progress_def)
qed

text \<open>C10 on a first run with a hint, a skip and a quit.\<close>

theorem hint_counts_never_written_witness:
  "\<exists>s'. run sqlite_ok [Line ''hint'', Line ''skip'', Line ''quit'']
           (init None ''2026-01-01T09:00:00'' ()) = Inr s' \<and>
        hint_counts (progress s') = [] \<and> list_all (\<lambda>p. hint_counts p = []) (saves s')"
  using hint_counts_never_written
    [of sqlite_ok "[Line ''hint'', Line ''skip'', Line ''quit'']" None "''2026-01-01T09:00:00''" "()"]
  by (simp add: load_progress_def)

section \<open>Cursors and the lesson display (C9)\<close>

lemma cursors_kept_step:
  assumes hc: "handle_command sq s cmd = Inr (b, s')"
    and IH: "get_lesson_by_id (current_lesson (progress s)) = None \<Longrightarrow>
             current_hint s = 0 \<and> current_step s = 0"
    and none: "get_lesson_by_id (current_lesson (progress s')) = None"
  shows "current_hint s' = 0 \<and> current_step s' = 0"
proof -
  show ?thesis
  proof (cases rule: handle_command_cases[of cmd sq s])
    case c_blank
    with hc none IH show ?thesis by simp
  next
    case c_run
    with hc none IH show ?thesis by (auto simp: cmd_run_fields)
  next
    case c_hint
    with hc have h: "cmd_hint (get_lesson_by_id (current_lesson (progress s))) s = Inr s'"
      by (simp add: map_sum_Inr_conv)
    from cmd_hint_fields(1)[OF h] none
    have "get_lesson_by_id (current_lesson (progress s)) = None" by simp
    with cmd_hint_fields(6)[OF h] IH show ?thesis by simp
  next
    case c_next
    with hc have h: "cmd_next (get_lesson_by_id (current_lesson (progress s))) s = Inr s'"
      by (simp add: map_sum_Inr_conv)
    from cmd_next_fields(1)[OF h] none
    have "get_lesson_by_id (current_lesson (progress s)) = None" by simp
    with cmd_next_fields(6)[OF h] IH show ?thesis by simp
  next
    case c_answer
    with hc none IH show ?thesis by (auto simp: cmd_answer_fields)
  next
    case c_explain
    with hc none IH show ?thesis by (auto simp: cmd_explain_fields)
  next
    case c_schema
    with hc none IH show ?thesis by (auto simp: emit_fields)
  next
    case c_tables
    with hc none IH show ?thesis by (auto simp: emit_fields)
  next
    case c_skip
    with hc have e: "s' = cmd_skip (get_lesson_by_id (current_lesson (progress s))) s" by simp
    show ?thesis
    proof (cases "get_lesson_by_id (current_lesson (progress s))")
      case None
      with e none IH show ?thesis by (simp add: cmd_skip_None)
    next
      case (Some a)
      obtain l ph where a: "a = (l, ph)" by (cases a)
      have "get_lesson_by_id (current_lesson (progress (cmd_skip (Some (l, ph)) s))) \<noteq> None"
        using cmd_skip_lesson[OF Some[unfolded a]] Some
        by (cases "current_lesson (progress (cmd_skip (Some (l, ph)) s)) =
                   current_lesson (progress s)") simp_all
      with none show ?thesis unfolding e Some a by simp
    qed
  next
    case c_lesson
    with hc have e: "s' = cmd_lesson (strip cmd) s" by simp
    show ?thesis
    proof (cases "get_lesson_by_id (strip (drop 7 (strip cmd))) = None")
      case True
      from cmd_lesson_fields(4)[OF True, of s] none IH show ?thesis unfolding e by simp
    next
      case False
      from cmd_lesson_fields(5)[OF False, of s] show ?thesis unfolding e by simp
    qed
  next
    case c_progress
    with hc none IH show ?thesis by (auto simp: cmd_progress_fields)
  next
    case c_reset
    with hc show ?thesis by (auto simp: cmd_reset_fields)
  next
    case c_help
    with hc none IH show ?thesis by (auto simp: emit_fields)
  next
    case c_clear
    with hc none IH show ?thesis by (auto simp: cmd_clear_fields)
  next
    case c_quit
    with hc have e: "s' = cmd_quit s" by simp
    show ?thesis using none IH unfolding e by (simp add: cmd_quit_fields)
  next
    case c_other
    with hc none IH show ?thesis by (auto simp: cmd_other_fields)
  qed
qed

lemma state_after_cursors:
  "state_after sq cmds s0 = Some s \<Longrightarrow>
   (get_lesson_by_id (current_lesson (progress s0)) = None \<longrightarrow>
      current_hint s0 = 0 \<and> current_step s0 = 0) \<Longrightarrow>
   get_lesson_by_id (current_lesson (progress s)) = None \<longrightarrow>
      current_hint s = 0 \<and> current_step s = 0"
proof (induction cmds arbitrary: s0)
  case Nil
  then show ?case by simp
next
  case (Cons cmd cmds)
  obtain b t where t: "handle_command sq s0 cmd = Inr (b, t)"
    using handle_command_total by blast
  with Cons.prems(1) have a: "state_after sq cmds t = Some s"
    by (simp split: if_splits)
  have "get_lesson_by_id (current_lesson (progress t)) = None \<longrightarrow>
          current_hint t = 0 \<and> current_step t = 0"
    using cursors_kept_step[OF t] Cons.prems(2) by blast
  with Cons.IH[OF a] show ?case by blast
qed

lemma entry_state_cursors:
  "get_lesson_by_id (current_lesson (progress (entry_state f now d))) = None \<longrightarrow>
     current_hint (entry_state f now d) = 0 \<and> current_step (entry_state f now d) = 0"
  by (simp add: entry_state_def show_current_lesson_fields show_current_lesson_cursors
      emit_fields init_def)

text \<open>
  C9: whatever the progress file, the clock and the database, and after any input lines
  that kept the loop going, \<open>clear\<close> (or \<open>cls\<close>) leaves both cursors at 0, although the
  current lesson is the same, and neither changes nor saves the progress; when the current
  lesson resolves it is shown again.
\<close>

theorem clear_resets_cursors:
  assumes "state_after sq cmds (entry_state f now d) = Some s"
    and "lower (strip cmd) \<in> set [''clear'', ''cls'']"
  shows "\<exists>s'. handle_command sq s cmd = Inr (True, s') \<and>
           current_hint s' = 0 \<and> current_step s' = 0 \<and>
           progress s' = progress s \<and> progress_file s' = progress_file s \<and>
           saves s' = saves s \<and>
           (\<forall>l ph. get_lesson_by_id (current_lesson (progress s)) = Some (l, ph) \<longrightarrow>
              out s' = out s @ [ClearScreen, Banner,
                                ProgressBar (length (completed_lessons (progress s)))
                                  get_total_lessons,
                                LessonView ph l])"
proof -
  from assms(2) have hc: "handle_command sq s cmd = Inr (True, cmd_clear s)"
    using hc_clear hc_cls by auto
  have o: "out (cmd_clear s) = out s @ [ClearScreen, Banner,
             ProgressBar (length (completed_lessons (progress s))) get_total_lessons,
             LessonView ph l]"
    if "get_lesson_by_id (current_lesson (progress s)) = Some (l, ph)" for l ph
    using that by (simp add: cmd_clear_def show_current_lesson_def emit_def)
  from state_after_cursors[OF assms(1) entry_state_cursors]
  have "current_hint (cmd_clear s) = 0 \<and> current_step (cmd_clear s) = 0"
    by (simp add: cmd_clear_fields)
  with hc o show ?thesis by (simp add: cmd_clear_fields)
qed

text \<open>C9 after one hint on lesson 1.1: the hint cursor goes from 1 back to 0.\<close>

theorem clear_resets_cursors_witness:
  "state_after sqlite_ok [''hint''] (entry_state None ''2026-01-01T09:00:00'' ()) = Some hinted \<and>
   lower (strip '' CLS '') \<in> set [''clear'', ''cls''] \<and>
   current_hint hinted = 1 \<and>
   (\<exists>s'. handle_command sqlite_ok hinted '' CLS '' = Inr (True, s') \<and>
         current_hint s' = 0 \<and> current_step s' = 0 \<and> progress s' = progress hinted \<and>
         progress_file s' = progress_file hinted \<and> saves s' = saves hinted \<and>
         out s' = out hinted @ [ClearScreen, Banner,
                    ProgressBar (length (completed_lessons (progress hinted))) get_total_lessons,
                    LessonView phase_1 lesson_1_1])"
proof -
  have c: "lower (strip '' CLS '') \<in> set [''clear'', ''cls'']" by (simp add: str_defs)
  from clear_resets_cursors[OF state_after_hint c] hinted_fields(3)
  show ?thesis using state_after_hint[of sqlite_ok] c hinted_fields(1) by auto
qed

section \<open>The hint cursor (C3)\<close>

lemma hint_cmd_branch:
  "is_hint_cmd cmd \<Longrightarrow>
   handle_command sq s cmd =
     map_sum id (Pair True) (cmd_hint (get_lesson_by_id (current_lesson (progress s))) s)"
  unfolding is_hint_cmd_def using hc_hint hc_stuck hc_help_me by auto

lemma hint_cursor_moves:
  assumes "handle_command sq s cmd = Inr (b, s')"
  shows "(current_lesson (progress s') \<noteq> current_lesson (progress s) \<longrightarrow> current_hint s' = 0) \<and>
     (current_lesson (progress s') = current_lesson (progress s) \<longrightarrow>
        current_hint s \<le> current_hint s' \<or> (current_hint s' = 0 \<and> is_reset_cmd cmd))"
proof (cases rule: handle_command_cases[of cmd sq s])
  case c_blank
  with assms show ?thesis by simp
next
  case c_run
  with assms show ?thesis by (auto simp: cmd_run_fields)
next
  case c_hint
  with assms have h: "cmd_hint (get_lesson_by_id (current_lesson (progress s))) s = Inr s'"
    by (simp add: map_sum_Inr_conv)
  from cmd_hint_fields(1,5)[OF h] show ?thesis by simp
next
  case c_next
  with assms have h: "cmd_next (get_lesson_by_id (current_lesson (progress s))) s = Inr s'"
    by (simp add: map_sum_Inr_conv)
  from cmd_next_fields(1,2)[OF h] show ?thesis by simp
next
  case c_answer
  with assms show ?thesis by (auto simp: cmd_answer_fields)
next
  case c_explain
  with assms show ?thesis by (auto simp: cmd_explain_fields)
next
  case c_schema
  with assms show ?thesis by (auto simp: emit_fields)
next
  case c_tables
  with assms show ?thesis by (auto simp: emit_fields)
next
  case c_skip
  with assms have e: "s' = cmd_skip (get_lesson_by_id (current_lesson (progress s))) s" by simp
  show ?thesis
  proof (cases "get_lesson_by_id (current_lesson (progress s))")
    case None
    with e show ?thesis by (simp add: cmd_skip_None)
  next
    case (Some a)
    obtain l ph where a: "a = (l, ph)" by (cases a)
    from cmd_skip_lesson[OF Some[unfolded a]] show ?thesis
      unfolding e Some a by simp
  qed
next
  case c_lesson
  with assms have e: "s' = cmd_lesson (strip cmd) s" by simp
  have r: "is_reset_cmd cmd" using c_lesson(1) by (simp add: is_reset_cmd_def)
  show ?thesis
  proof (cases "get_lesson_by_id (strip (drop 7 (strip cmd))) = None")
    case True
    from cmd_lesson_fields(4)[OF True, of s] show ?thesis unfolding e by simp
  next
    case False
    from cmd_lesson_fields(5)[OF False, of s] r show ?thesis unfolding e by simp
  qed
next
  case c_progress
  with assms show ?thesis by (auto simp: cmd_progress_fields)
next
  case c_reset
  then have r: "is_reset_cmd cmd" by (simp add: is_reset_cmd_def)
  with c_reset assms show ?thesis by (auto simp: cmd_reset_fields)
next
  case c_help
  with assms show ?thesis by (auto simp: emit_fields)
next
  case c_clear
  then have r: "is_reset_cmd cmd" by (simp add: is_reset_cmd_def)
  with c_clear(2) assms show ?thesis by (auto simp: cmd_clear_fields)
next
  case c_quit
  with assms show ?thesis by (auto simp: cmd_quit_fields)
next
  case c_other
  with assms show ?thesis by (auto simp: cmd_other_fields)
qed

lemma hint_exhausted:
  "is_hint_cmd cmd \<Longrightarrow> get_lesson_by_id (current_lesson (progress s)) = Some (l, ph) \<Longrightarrow>
   length (hints l) \<le> current_hint s \<Longrightarrow>
   handle_command sq s cmd =
     Inr (True, emit [Print ''No more hints! Type 'answer' to see the solution.''] s)"
  by (simp add: hint_cmd_branch cmd_hint_cases)

text \<open>
  C3, amended: no command raises an error; after a command that changes the current lesson
  id the hint cursor is 0; while the id stays the same the cursor does not decrease, except
  that \<open>reset\<close>, \<open>clear\<close>, \<open>cls\<close> and \<open>lesson <id>\<close> may set it to 0; and a hint
  requested when the cursor has reached \<open>len(hints)\<close> prints the "no more hints" line
  and changes nothing else.
\<close>

theorem hint_cursor_step:
  "\<exists>b s'. handle_command sq s cmd = Inr (b, s') \<and>
     (current_lesson (progress s') \<noteq> current_lesson (progress s) \<longrightarrow> current_hint s' = 0) \<and>
     (current_lesson (progress s') = current_lesson (progress s) \<longrightarrow>
        current_hint s \<le> current_hint s' \<or> (current_hint s' = 0 \<and> is_reset_cmd cmd)) \<and>
     (is_hint_cmd cmd \<longrightarrow>
        (\<forall>l ph. get_lesson_by_id (current_lesson (progress s)) = Some (l, ph) \<longrightarrow>
                length (hints l) \<le> current_hint s \<longrightarrow>
                b \<and> s' = emit [Print ''No more hints! Type 'answer' to see the solution.''] s))"
proof -
  obtain b s' where r: "handle_command sq s cmd = Inr (b, s')"
    using handle_command_total by blast
  have "b \<and> s' = emit [Print ''No more hints! Type 'answer' to see the solution.''] s"
    if "is_hint_cmd cmd" "get_lesson_by_id (current_lesson (progress s)) = Some (l, ph)"
       "length (hints l) \<le> current_hint s" for l ph
    using hint_exhausted[OF that, of sq] r by simp
  with r hint_cursor_moves[OF r] show ?thesis by blast
qed

text \<open>
  C3, as stated, fails: after \<open>hint\<close> the cursor of lesson 1.1 is 1, and \<open>reset\<close> sets it
  to 0 while the current lesson is still 1.1. The cursor has decreased within a lesson, and
  it was reset although the lesson id did not change.
\<close>

theorem hint_cursor_reset_counterexample:
  "handle_command sqlite_ok fresh ''hint'' = Inr (True, hinted) \<and>
   handle_command sqlite_ok hinted ''reset'' = Inr (True, cmd_reset hinted) \<and>
   current_lesson (progress hinted) = ''1.1'' \<and>
   current_lesson (progress (cmd_reset hinted)) = ''1.1'' \<and>
   current_hint hinted = 1 \<and> current_hint (cmd_reset hinted) = 0"
proof -
  have "lower (strip ''reset'') = ''reset''" by (simp add: str_defs)
  from hc_reset[OF this, of sqlite_ok hinted] fresh_hint[of sqlite_ok] show ?thesis
    by (simp add: cmd_reset_fields hinted_fields) (simp add: fresh_eq)
qed

text \<open>The amended C3 at a hint request on lesson 1.1 with all three hints used.\<close>

theorem hint_cursor_step_witness:
  "is_hint_cmd ''hint'' \<and>
   get_lesson_by_id (current_lesson (progress (hinted\<lparr>current_hint := 3\<rparr>))) =
     Some (lesson_1_1, phase_1) \<and>
   length (hints lesson_1_1) \<le> current_hint (hinted\<lparr>current_hint := 3\<rparr>) \<and>
   handle_command sqlite_ok (hinted\<lparr>current_hint := 3\<rparr>) ''hint'' =
     Inr (True, emit [Print ''No more hints! Type 'answer' to see the solution.'']
                  (hinted\<lparr>current_hint := 3\<rparr>))"
proof -
  have 1: "is_hint_cmd ''hint''" by (simp add: is_hint_cmd_def str_defs)
  have 2: "get_lesson_by_id (current_lesson (progress (hinted\<lparr>current_hint := 3\<rparr>))) =
     Some (lesson_1_1, phase_1)" by (simp add: hinted_fields fresh_lesson)
  have 3: "length (hints lesson_1_1) \<le> current_hint (hinted\<lparr>current_hint := 3\<rparr>)"
    by (simp add: hints_1_1)
  from hint_cursor_step[of sqlite_ok "hinted\<lparr>current_hint := 3\<rparr>" "''hint''"] 1 2 3
  show ?thesis by auto
qed

section \<open>Query errors (C7)\<close>

lemma truthy_iff: "truthy x \<longleftrightarrow> x \<noteq> None \<and> x \<noteq> Some []"
  by (cases x) (simp_all add: truthy_def)



section \<open>The execution-order explanation (C8)\<close>

lemma numbered_snoc: "numbered (xs @ [c]) = numbered xs @ [(Suc (length xs), c)]"
proof -
  have u: "[1 ..< Suc (Suc (length xs))] = [1 ..< Suc (length xs)] @ [Suc (length xs)]"
    by (rule upt_Suc_append) simp
  have "zip ([1 ..< Suc (length xs)] @ [Suc (length xs)]) (xs @ [c]) =
        zip [1 ..< Suc (length xs)] xs @ zip [Suc (length xs)] [c]"
    by (rule zip_append) (simp del: upt_Suc)
  then show ?thesis unfolding numbered_def length_append_singleton u by simp
qed

lemma append_step_numbered:
  "append_step has c (numbered xs, Suc (length xs)) =
     (numbered (xs @ (if has then [c] else [])), Suc (length (xs @ (if has then [c] else []))))"
  by (simp add: append_step_def numbered_snoc)

lemma filter_Cons_if: "filter P (c # cs) = (if P c then [c] else []) @ filter P cs"
  by simp

lemma explain_execution_order_eq:
  "explain_execution_order q =
     numbered (filter (\<lambda>c. py_in (search_string c) (lower q)) evaluation_order)"
proof -
  have init: "([], 1) = (numbered ([] :: clause list), Suc (length ([] :: clause list)))"
    by (simp add: numbered_def)
  have l: "explain_execution_order q =
     numbered ([] @ (if py_in ''with '' (lower q) then [CTE] else [])
       @ (if py_in ''from '' (lower q) then [FROM] else [])
       @ (if py_in ''join '' (lower q) then [JOIN] else [])
       @ (if py_in ''where '' (lower q) then [WHERE] else [])
       @ (if py_in ''group by'' (lower q) then [GROUP_BY] else [])
       @ (if py_in ''having '' (lower q) then [HAVING] else [])
       @ (if py_in ''select '' (lower q) then [SELECT] else [])
       @ (if py_in ''distinct'' (lower q) then [DISTINCT] else [])
       @ (if py_in ''order by'' (lower q) then [ORDER_BY] else [])
       @ (if py_in ''limit '' (lower q) then [LIMIT] else []))"
    unfolding explain_execution_order_def Let_def init
    by (simp only: append_step_numbered fst_conv append_assoc)
  have r: "filter (\<lambda>c. py_in (search_string c) (lower q)) evaluation_order =
     [] @ (if py_in ''with '' (lower q) then [CTE] else [])
       @ (if py_in ''from '' (lower q) then [FROM] else [])
       @ (if py_in ''join '' (lower q) then [JOIN] else [])
       @ (if py_in ''where '' (lower q) then [WHERE] else [])
       @ (if py_in ''group by'' (lower q) then [GROUP_BY] else [])
       @ (if py_in ''having '' (lower q) then [HAVING] else [])
       @ (if py_in ''select '' (lower q) then [SELECT] else [])
       @ (if py_in ''distinct'' (lower q) then [DISTINCT] else [])
       @ (if py_in ''order by'' (lower q) then [ORDER_BY] else [])
       @ (if py_in ''limit '' (lower q) then [LIMIT] else [])"
    unfolding evaluation_order_def
    by (simp only: filter_Cons_if filter.simps(1) search_string.simps append_Nil append_Nil2)
  show ?thesis unfolding l r ..
qed

text \<open>
  C8, amended: when \<open>last_query\<close> is absent (or empty) \<open>explain\<close> prints the prompt to
  run a query first and changes nothing else; otherwise it renders, numbered from 1 and in
  the order CTE, FROM, JOIN, WHERE, GROUP BY, HAVING, SELECT, DISTINCT, ORDER BY, LIMIT,
  exactly the clauses whose search text occurs in the lower-cased last query, where the
  search text is the keyword followed by one space for \<open>with\<close>, \<open>from\<close>, \<open>join\<close>,
  \<open>where\<close>, \<open>having\<close>, \<open>select\<close> and \<open>limit\<close>, and the bare keyword for
  \<open>group by\<close>, \<open>distinct\<close> and \<open>order by\<close>.
\<close>

theorem explain_command:
  assumes "lower (strip cmd) = ''explain''"
  shows "handle_command sq s cmd =
     Inr (True,
          if last_query s = None \<or> last_query s = Some []
          then s\<lparr>out := out s @
                 [Print ''Run a query first, then type 'explain' to see execution order.'']\<rparr>
          else s\<lparr>out := out s @
                 [ExecutionOrder
                    (numbered (filter (\<lambda>c. py_in (search_string c) (lower (the (last_query s))))
                                 evaluation_order))]\<rparr>)"
  unfolding hc_explain[OF assms]
  by (simp add: cmd_explain_def truthy_iff emit_def explain_execution_order_eq)

lemmas eval_defs = str_defs evaluation_order_def numbered_def

text \<open>
  C8, as stated, fails: after \<open>run select*from t\<close> the last query holds the keyword
  \<open>select\<close>, found by a case-insensitive substring search, yet \<open>explain\<close> renders the
  FROM step only, because the code searches for \<open>select\<close> followed by a space.
\<close>

theorem explain_keyword_counterexample:
  "handle_command sqlite_ok fresh ''run select*from t'' =
     Inr (True, fresh\<lparr>last_query := Some ''select*from t'',
                       out := out fresh @ [Print ''Query executed successfully!'',
                                           TableOut (Some []) (Some [])]\<rparr>) \<and>
   handle_command sqlite_ok (fresh\<lparr>last_query := Some ''select*from t''\<rparr>) ''explain'' =
     Inr (True, fresh\<lparr>last_query := Some ''select*from t'',
                       out := out fresh @ [ExecutionOrder [(1, FROM)]]\<rparr>) \<and>
   py_in (spec_keyword SELECT) (lower ''select*from t'') \<and>
   \<not> py_in (search_string SELECT) (lower ''select*from t'')"
proof -
  have r: "startswith (lower (strip ''run select*from t'')) ''run ''"
    by (simp add: str_defs)
  have n: "normalize_sql ''select*from t'' \<noteq> normalize_sql (answer lesson_1_1)"
    by (simp add: str_defs lesson_1_1_def)
  have s: "strip (drop 4 (strip ''run select*from t'')) = ''select*from t''"
    by (simp add: str_defs)
  have 1: "handle_command sqlite_ok fresh ''run select*from t'' =
     Inr (True, fresh\<lparr>last_query := Some ''select*from t'',
                       out := out fresh @ [Print ''Query executed successfully!'',
                                           TableOut (Some []) (Some [])]\<rparr>)"
    unfolding hc_run[OF r] fresh_lesson cmd_run_def s Let_def
    using n by (simp add: execute_sql_def sqlite_ok_def truthy_def emit_def)
  have e: "lower (strip ''explain'') = ''explain''" by (simp add: str_defs)
  have 2: "handle_command sqlite_ok (fresh\<lparr>last_query := Some ''select*from t''\<rparr>) ''explain'' =
     Inr (True, fresh\<lparr>last_query := Some ''select*from t'',
                       out := out fresh @ [ExecutionOrder [(1, FROM)]]\<rparr>)"
    unfolding hc_explain[OF e]
    by (simp add: cmd_explain_def truthy_def emit_def explain_execution_order_def append_step_def
        str_defs)
  have 3: "py_in (spec_keyword SELECT) (lower ''select*from t'')"
    by (simp add: str_defs)
  have 4: "\<not> py_in (search_string SELECT) (lower ''select*from t'')"
    by (simp add: str_defs)
  from 1 2 3 4 show ?thesis by simp
qed

text \<open>The amended C8 with no last query and with a five-clause last query.\<close>

theorem explain_command_witness:
  "lower (strip '' Explain '') = ''explain'' \<and>
   handle_command sqlite_ok fresh '' Explain '' =
     Inr (True, fresh\<lparr>out := out fresh @
            [Print ''Run a query first, then type 'explain' to see execution order.'']\<rparr>) \<and>
   handle_command sqlite_ok
       (fresh\<lparr>last_query := Some ''SELECT DISTINCT device FROM t WHERE x > 1 LIMIT 3''\<rparr>)
       '' Explain '' =
     Inr (True, fresh\<lparr>last_query := Some ''SELECT DISTINCT device FROM t WHERE x > 1 LIMIT 3'',
            out := out fresh @
              [ExecutionOrder [(1, FROM), (2, WHERE), (3, SELECT), (4, DISTINCT), (5, LIMIT)]]\<rparr>)"
proof -
  have e: "lower (strip '' Explain '') = ''explain''" by (simp add: str_defs)
  have l: "last_query fresh = None" by (simp add: fresh_eq)
  have f: "numbered (filter (\<lambda>c. py_in (search_string c)
              (lower ''SELECT DISTINCT device FROM t WHERE x > 1 LIMIT 3'')) evaluation_order) =
           [(1, FROM), (2, WHERE), (3, SELECT), (4, DISTINCT), (5, LIMIT)]"
    by (simp add: eval_defs)
  from explain_command[OF e, of sqlite_ok fresh]
    explain_command[OF e, of sqlite_ok
      "fresh\<lparr>last_query := Some ''SELECT DISTINCT device FROM t WHERE x > 1 LIMIT 3''\<rparr>"]
  show ?thesis using e by (simp add: l f)
qed

section \<open>An unresolvable current lesson (C6)\<close>

lemma show_current_lesson_None:
  "get_lesson_by_id (current_lesson (progress s)) = None \<Longrightarrow>
   show_current_lesson s = s\<lparr>out := out s @ [ErrorBox ''Lesson not found!'']\<rparr>"
  by (simp add: show_current_lesson_def emit_def)

text \<open>
  C6, amended: when the current lesson id does not resolve, \<open>hint\<close>, \<open>next\<close>,
  \<open>answer\<close> and \<open>skip\<close> (and their synonyms) do nothing at all, without any message;
  the lesson display, alone or through \<open>clear\<close>, prints "Lesson not found!" and changes
  nothing else; and every later command still returns.
\<close>

theorem unresolved_lesson_commands:
  assumes "get_lesson_by_id (current_lesson (progress s)) = None"
  shows "(lower (strip cmd) \<in> set [''hint'', ''stuck'', ''help me'', ''next'', ''answer'',
                                    ''solution'', ''skip'']
            \<longrightarrow> handle_command sq s cmd = Inr (True, s)) \<and>
         (lower (strip cmd) \<in> set [''clear'', ''cls'']
            \<longrightarrow> handle_command sq s cmd =
                  Inr (True, s\<lparr>out := out s @ [ClearScreen, Banner,
                                                ErrorBox ''Lesson not found!'']\<rparr>)) \<and>
         show_current_lesson s = s\<lparr>out := out s @ [ErrorBox ''Lesson not found!'']\<rparr> \<and>
         (\<forall>cmd'. \<exists>b s'. handle_command sq s cmd' = Inr (b, s'))"
proof -
  have 1: "handle_command sq s cmd = Inr (True, s)"
    if "lower (strip cmd) \<in> set [''hint'', ''stuck'', ''help me'', ''next'', ''answer'',
                                  ''solution'', ''skip'']"
    using that assms hc_hint[of cmd sq s] hc_stuck[of cmd sq s] hc_help_me[of cmd sq s]
      hc_next[of cmd sq s] hc_answer[of cmd sq s] hc_solution[of cmd sq s] hc_skip[of cmd sq s]
    by (auto simp: cmd_hint_cases cmd_next_cases cmd_answer_def cmd_skip_None)
  have 2: "handle_command sq s cmd =
             Inr (True, s\<lparr>out := out s @ [ClearScreen, Banner, ErrorBox ''Lesson not found!'']\<rparr>)"
    if "lower (strip cmd) \<in> set [''clear'', ''cls'']"
    using that assms hc_clear[of cmd sq s] hc_cls[of cmd sq s]
    by (auto simp: cmd_clear_def show_current_lesson_def emit_def)
  from 1 2 show_current_lesson_None[OF assms] handle_command_total show ?thesis by blast
qed

lemma stale_eq:
  "stale =
     \<lparr>progress = stale_progress, current_hint = 0, current_step = 0, last_query = None,
      progress_file = Some stale_progress, saves = [], db = (),
      out = [ClearScreen, Banner, Welcome, ErrorBox ''Lesson not found!'']\<rparr>"
  by (simp add: stale_def entry_state_def init_def load_progress_def emit_def show_current_lesson_def
      stale_progress_def get_lesson_by_id_9_9)

lemma stale_lesson: "get_lesson_by_id (current_lesson (progress stale)) = None"
  by (simp add: stale_eq stale_progress_def get_lesson_by_id_9_9)

text \<open>
  C6, as stated, fails: with a current lesson id that names no lesson, \<open>hint\<close>,
  \<open>next\<close>, \<open>answer\<close> and \<open>skip\<close> return the state as it was, output included, so
  none of them reports "lesson not found".
\<close>

theorem unresolved_lesson_silent_counterexample:
  "get_lesson_by_id (current_lesson (progress stale)) = None \<and>
   out stale = [ClearScreen, Banner, Welcome, ErrorBox ''Lesson not found!''] \<and>
   handle_command sqlite_ok stale ''hint'' = Inr (True, stale) \<and>
   handle_command sqlite_ok stale ''next'' = Inr (True, stale) \<and>
   handle_command sqlite_ok stale ''answer'' = Inr (True, stale) \<and>
   handle_command sqlite_ok stale ''skip'' = Inr (True, stale)"
proof -
  have w: "lower (strip ''hint'') = ''hint''" "lower (strip ''next'') = ''next''"
    "lower (strip ''answer'') = ''answer''" "lower (strip ''skip'') = ''skip''"
    by (simp_all add: str_defs)
  show ?thesis
    unfolding hc_hint[OF w(1)] hc_next[OF w(2)] hc_answer[OF w(3)] hc_skip[OF w(4)] stale_lesson
    by (simp add: cmd_hint_cases cmd_next_cases cmd_answer_def cmd_skip_None) (simp add: stale_eq)
qed

text \<open>The amended C6 in the state loaded from a progress file that names lesson 9.9.\<close>

theorem unresolved_lesson_commands_witness:
  "get_lesson_by_id (current_lesson (progress stale)) = None \<and>
   lower (strip ''Stuck'') \<in> set [''hint'', ''stuck'', ''help me'', ''next'', ''answer'',
                                    ''solution'', ''skip''] \<and>
   handle_command sqlite_ok stale ''Stuck'' = Inr (True, stale) \<and>
   lower (strip ''clear'') \<in> set [''clear'', ''cls''] \<and>
   handle_command sqlite_ok stale ''clear'' =
     Inr (True, stale\<lparr>out := out stale @ [ClearScreen, Banner,
                                           ErrorBox ''Lesson not found!'']\<rparr>)"
proof -
  have 1: "lower (strip ''Stuck'') \<in> set [''hint'', ''stuck'', ''help me'', ''next'', ''answer'',
                                    ''solution'', ''skip'']" by (simp add: str_defs)
  have 2: "lower (strip ''clear'') \<in> set [''clear'', ''cls'']" by (simp add: str_defs)
  from unresolved_lesson_commands[OF stale_lesson, of "''Stuck''" sqlite_ok] 1
  have a: "handle_command sqlite_ok stale ''Stuck'' = Inr (True, stale)" by blast
  from unresolved_lesson_commands[OF stale_lesson, of "''clear''" sqlite_ok] 2
  have b: "handle_command sqlite_ok stale ''clear'' =
     Inr (True, stale\<lparr>out := out stale @ [ClearScreen, Banner,
                                           ErrorBox ''Lesson not found!'']\<rparr>)" by blast
  from stale_lesson 1 2 a b show ?thesis by blast
qed

lemma at_final_eq:
  "at_final =
     \<lparr>progress = final_progress, current_hint = 0, current_step = 0, last_query = None,
      progress_file = Some final_progress, saves = [], db = (),
      out = [ClearScreen, Banner, Welcome, ProgressBar 0 get_total_lessons,
             LessonView phase_4 lesson_4_3]\<rparr>"
  by (simp add: at_final_def entry_state_def init_def load_progress_def emit_def show_current_lesson_def
      final_progress_def get_lesson_by_id_4_3)

section \<open>Submitting the answer (C1)\<close>























section \<open>Skipping (C2)\<close>

lemma next_lesson_id_nonempty: "get_next_lesson_id c = Some n \<Longrightarrow> n \<noteq> []"
  using next_lesson_in_curriculum[of c n] unfolding all_lesson_ids by auto

lemma skip_effects:
  assumes "get_lesson_by_id (current_lesson (progress s)) = Some (l, ph)"
    and "lower (strip cmd) = ''skip''"
  shows "\<exists>s'. handle_command sq s cmd = Inr (True, s') \<and>
           lesson_id l \<in> set (completed_lessons (progress s')) \<and>
           (lesson_id l \<in> set (completed_lessons (progress s)) \<longrightarrow>
              completed_lessons (progress s') = completed_lessons (progress s)) \<and>
           (lesson_id l \<notin> set (completed_lessons (progress s)) \<longrightarrow>
              completed_lessons (progress s') = completed_lessons (progress s) @ [lesson_id l]) \<and>
           (get_next_lesson_id (lesson_id l) = None \<longrightarrow>
              current_lesson (progress s') = current_lesson (progress s) \<and>
              progress_file s' = progress_file s \<and> saves s' = saves s) \<and>
           (\<forall>n. get_next_lesson_id (lesson_id l) = Some n \<longrightarrow>
              current_lesson (progress s') = n \<and> progress_file s' = Some (progress s') \<and>
              saves s' = saves s @ [progress s'] \<and>
              current_hint s' = 0 \<and> current_step s' = 0)"
proof (cases "get_next_lesson_id (lesson_id l)")
  case None
  show ?thesis
    unfolding hc_skip[OF assms(2)] assms(1) cmd_skip_def Let_def
    using None by (simp add: truthy_def emit_def)
next
  case (Some n)
  have t: "truthy (Some n)" using next_lesson_id_nonempty[OF Some] by (simp add: truthy_iff)
  have r: "get_lesson_by_id n \<noteq> None" using Some by (rule next_lesson_resolves)
  show ?thesis
    unfolding hc_skip[OF assms(2)] assms(1) cmd_skip_def Let_def
    using Some t r
    by (auto simp: show_current_lesson_fields show_current_lesson_cursors emit_fields
        save_progress_fields)
qed

text \<open>
  C2 at the last lesson: \<open>skip\<close> on lesson 4.3 adds 4.3 to the completed lessons of the
  progress in memory, leaves the current lesson at 4.3 and, invoked a second time, adds no
  duplicate; but \<open>save_progress\<close> is not called, so the progress file still holds the
  record without 4.3.
\<close>

theorem skip_last_lesson_not_saved:
  "handle_command sqlite_ok at_final ''skip'' =
     Inr (True, at_final
            \<lparr>progress := final_progress\<lparr>completed_lessons := [''4.3'']\<rparr>,
             out := out at_final @
                      [SuccessBox ''Congratulations! You've completed all lessons!'']\<rparr>) \<and>
   handle_command sqlite_ok
       (at_final
          \<lparr>progress := final_progress\<lparr>completed_lessons := [''4.3'']\<rparr>,
           out := out at_final @
                    [SuccessBox ''Congratulations! You've completed all lessons!'']\<rparr>) ''skip'' =
     Inr (True, at_final
            \<lparr>progress := final_progress\<lparr>completed_lessons := [''4.3'']\<rparr>,
             out := out at_final @
                      [SuccessBox ''Congratulations! You've completed all lessons!'',
                       SuccessBox ''Congratulations! You've completed all lessons!'']\<rparr>) \<and>
   progress_file at_final = Some final_progress \<and>
   Some (final_progress\<lparr>completed_lessons := [''4.3'']\<rparr>) \<noteq> progress_file at_final \<and>
   saves at_final = []"
proof -
  have w: "lower (strip ''skip'') = ''skip''" by (simp add: str_defs)
  have l: "get_lesson_by_id (current_lesson (progress t)) = Some (lesson_4_3, phase_4)"
    if "current_lesson (progress t) = ''4.3''" for t :: "unit coach"
    using that by (simp add: get_lesson_by_id_4_3)
  have c: "cmd_skip (Some (lesson_4_3, phase_4)) t =
          t\<lparr>progress := (progress t)\<lparr>completed_lessons :=
                (if ''4.3'' \<in> set (completed_lessons (progress t))
                 then completed_lessons (progress t)
                 else completed_lessons (progress t) @ [''4.3''])\<rparr>,
            out := out t @ [SuccessBox ''Congratulations! You've completed all lessons!'']\<rparr>"
    for t :: "unit coach"
    by (simp add: cmd_skip_def Let_def lesson_ids get_next_lesson_id_4_3 truthy_def emit_def)
  have 1: "current_lesson (progress at_final) = ''4.3''"
    by (simp add: at_final_eq final_progress_def)
  have 2: "current_lesson (progress (at_final
          \<lparr>progress := final_progress\<lparr>completed_lessons := [''4.3'']\<rparr>,
           out := out at_final @
                    [SuccessBox ''Congratulations! You've completed all lessons!'']\<rparr>)) = ''4.3''"
    by (simp add: final_progress_def)
  show ?thesis
    unfolding hc_skip[OF w] l[OF 1] l[OF 2] c
    by (simp add: at_final_eq final_progress_def)
qed

end
